theory Spec2Isabelle
  imports Complex_Main "HOL-Library.Word"
begin

section \<open>Data model (types.ts)\<close>

text \<open>
  A JavaScript number is the \<open>real\<close> it denotes (times, similarity, smoothness,
  scale), and an \<open>int\<close> where the source only ever holds an integer (counts and
  pixel sizes). \<open>NaN\<close> and the infinities are outside the model, and where the source
  would produce one the model says so with a value of its own. The bytes of an
  \<open>ImageData\<close> array are \<open>8 word\<close>. The field \<open>id\<close> of a frame is \<open>id'\<close> here,
  \<open>id\<close> being the identity function.
\<close>

type_synonym byte = "8 word"

record Frame =
  id' :: string
  timestamp :: real
  originalDataUrl :: string
  selected :: bool

record ChromaSettings =
  enabled :: bool
  color :: string
  similarity :: real
  smoothness :: real
  spill :: real

datatype OutputMode = Scale | Fixed

record SheetSettings =
  columns :: int
  scale :: real
  padding :: int
  outputMode :: OutputMode
  customWidth :: int
  customHeight :: int

section \<open>Arithmetic of JavaScript numbers\<close>

text \<open>
  The source computes in IEEE-754 double precision: every \<open>+\<close>, \<open>-\<close>, \<open>*\<close>, \<open>/\<close> and
  \<open>Math.sqrt\<close> returns the double nearest to the exact result, ties going to the even
  significand. \<open>toDouble x\<close> is that double: \<open>x\<close> is scaled by the unit in the last place
  of its binade (\<open>2 ^ (e - 52)\<close> for \<open>2 ^ e \<le> |x| < 2 ^ (e + 1)\<close>, and \<open>2 ^ -1074\<close> from
  the smallest normal binade down), rounded to an integer, and scaled back. The two
  zeros are one value here, and a result of magnitude \<open>2 ^ 1024\<close> or more (an infinity in
  the source) is outside the model. \<open>Math.sqrt\<close> is taken to round correctly, as the
  square root instruction that the engines use does. \<open>Math.floor\<close>, \<open>Math.ceil\<close>,
  \<open>Math.round\<close> and the comparisons are exact on doubles. At a concrete input
  \<open>toDouble\<close> is computed by lemma \<open>toDouble_eval\<close>, from the binade of the input.
\<close>

definition roundTiesToEven :: "real \<Rightarrow> int" where
  "roundTiesToEven x =
     (let n = \<lfloor>x\<rfloor>; r = x - of_int n
      in if r < 1 / 2 then n else if 1 / 2 < r then n + 1 else if even n then n else n + 1)"

definition ulpExponent :: "real \<Rightarrow> int" where
  "ulpExponent x = max \<lfloor>log 2 \<bar>x\<bar>\<rfloor> (- 1022) - 52"

definition toDouble :: "real \<Rightarrow> real" where
  "toDouble x =
     (if x = 0 then 0
      else of_int (roundTiesToEven (x / 2 powi ulpExponent x)) * 2 powi ulpExponent x)"

definition numAdd :: "real \<Rightarrow> real \<Rightarrow> real" where
  "numAdd a b = toDouble (a + b)"

definition numSub :: "real \<Rightarrow> real \<Rightarrow> real" where
  "numSub a b = toDouble (a - b)"

definition numMul :: "real \<Rightarrow> real \<Rightarrow> real" where
  "numMul a b = toDouble (a * b)"

text \<open>
  For a divisor other than zero. Where the source can divide by zero (\<open>1 / fps\<close> and the
  quotients by \<open>cols\<close>), the model decides that case before it divides.
\<close>

definition numDiv :: "real \<Rightarrow> real \<Rightarrow> real" where
  "numDiv a b = toDouble (a / b)"

definition mathSqrt :: "real \<Rightarrow> real" where
  "mathSqrt x = toDouble (sqrt x)"

section \<open>hexToRgb (App.tsx, lines 28-33)\<close>

text \<open>
  The regular expression \<open>/^#?([a-f\d]{2})([a-f\d]{2})([a-f\d]{2})$/i\<close>: an optional
  \<open>#\<close>, then exactly six characters of \<open>0-9\<close>, \<open>a-f\<close>, \<open>A-F\<close>, then the end of
  the input. \<open>parseInt(_, 16)\<close> of two such characters is \<open>16 * hi + lo\<close>.
\<close>

definition isHexDigit :: "char \<Rightarrow> bool" where
  "isHexDigit c \<longleftrightarrow> c \<in> set ''0123456789abcdefABCDEF''"

definition hexDigitValue :: "char \<Rightarrow> nat" where
  "hexDigitValue c =
     (let n = (of_char c :: nat) in
      if 48 \<le> n \<and> n \<le> 57 then n - 48
      else if 97 \<le> n \<and> n \<le> 102 then n - 87
      else if 65 \<le> n \<and> n \<le> 70 then n - 55
      else 0)"

definition parseInt16 :: "char \<Rightarrow> char \<Rightarrow> nat" where
  "parseInt16 hi lo = 16 * hexDigitValue hi + hexDigitValue lo"

text \<open>The three capture groups, tried on a string from which \<open>#?\<close> has taken its share.\<close>

fun matchGroups :: "string \<Rightarrow> (nat \<times> nat \<times> nat) option" where
  "matchGroups [a, b, c, d, e, f] =
     (if list_all isHexDigit [a, b, c, d, e, f]
      then Some (parseInt16 a b, parseInt16 c d, parseInt16 e f)
      else None)"
| "matchGroups _ = None"

text \<open>\<open>#?\<close> is greedy: the match with the \<open>#\<close> consumed is tried first, then without.\<close>

definition regexExec :: "string \<Rightarrow> (nat \<times> nat \<times> nat) option" where
  "regexExec hex =
     (case (case hex of [] \<Rightarrow> None
                      | c # t \<Rightarrow> if c = CHR ''#'' then matchGroups t else None) of
        Some m \<Rightarrow> Some m
      | None \<Rightarrow> matchGroups hex)"

definition hexToRgb :: "string \<Rightarrow> nat \<times> nat \<times> nat" where
  "hexToRgb hex = (case regexExec hex of Some m \<Rightarrow> m | None \<Rightarrow> (0, 255, 0))"

text \<open>
  The claim's wording, as a predicate of its own: a valid colour is six hexadecimal
  digits with an optional leading \<open>#\<close>.
\<close>

definition validHexColor :: "string \<Rightarrow> bool" where
  "validHexColor s \<longleftrightarrow>
     (let ds = (case s of [] \<Rightarrow> [] | c # t \<Rightarrow> if c = CHR ''#'' then t else s)
      in length ds = 6 \<and> list_all isHexDigit ds)"

section \<open>Chroma key: processFrame (App.tsx, lines 218-258)\<close>

text \<open>
  An assignment to an element of a \<open>Uint8ClampedArray\<close> clamps to \<open>0..255\<close>; the
  values assigned here are integers (\<open>0\<close> and a \<open>Math.floor\<close>).
\<close>

definition toUint8Clamped :: "int \<Rightarrow> byte" where
  "toUint8Clamped v = word_of_int (max 0 (min 255 v))"

text \<open>Lines 238-245: the distance of a pixel's colour from the key colour.\<close>

definition colorDist :: "nat \<times> nat \<times> nat \<Rightarrow> byte \<Rightarrow> byte \<Rightarrow> byte \<Rightarrow> real" where
  "colorDist key r g b =
     (case key of (keyR, keyG, keyB) \<Rightarrow>
        let dr = numSub (real (unat r)) (real keyR);
            dg = numSub (real (unat g)) (real keyG);
            db = numSub (real (unat b)) (real keyB)
        in mathSqrt (numAdd (numAdd (numMul dr dr) (numMul dg dg)) (numMul db db)))"

text \<open>Lines 247-254: which arm of the conditional a distance takes (\<open>distance\<close> is the source's \<open>dist\<close>).\<close>

datatype Branch = FullTransparency | SmoothEdge | Untouched

definition branchOf :: "real \<Rightarrow> real \<Rightarrow> real \<Rightarrow> Branch" where
  "branchOf distance similarityThreshold smoothRange =
     (if distance < similarityThreshold then FullTransparency
      else if distance < numAdd similarityThreshold smoothRange then SmoothEdge
      else Untouched)"

text \<open>
  The value of \<open>data[i + 3]\<close> after the loop body; the division is in one arm only, and
  in \<open>processFrame\<close> that arm is not taken with a divisor of zero.
\<close>

definition alphaAfter :: "real \<Rightarrow> real \<Rightarrow> real \<Rightarrow> byte \<Rightarrow> byte" where
  "alphaAfter distance similarityThreshold smoothRange a =
     (case branchOf distance similarityThreshold smoothRange of
        FullTransparency \<Rightarrow> toUint8Clamped 0
      | SmoothEdge \<Rightarrow>
          (let alpha = numDiv (numSub distance similarityThreshold) smoothRange
           in toUint8Clamped \<lfloor>numMul alpha 255\<rfloor>)
      | Untouched \<Rightarrow> a)"

text \<open>
  The loop \<open>for (i = 0; i < data.length; i += 4)\<close>. The array of an \<open>ImageData\<close> has
  a length that is a multiple of four; on a shorter tail the source reads
  \<open>undefined\<close>, every comparison with the resulting \<open>NaN\<close> is false (or the write is
  out of range and dropped), and the tail stays as it is.
\<close>

fun chromaLoop :: "nat \<times> nat \<times> nat \<Rightarrow> real \<Rightarrow> real \<Rightarrow> byte list \<Rightarrow> byte list" where
  "chromaLoop key similarityThreshold smoothRange (r # g # b # a # rest) =
     r # g # b # alphaAfter (colorDist key r g b) similarityThreshold smoothRange a
       # chromaLoop key similarityThreshold smoothRange rest"
| "chromaLoop key similarityThreshold smoothRange tail = tail"

text \<open>A decoded image (\<open>HTMLImageElement\<close>): its size and its RGBA bytes, row by row.\<close>

record Image =
  width :: int
  height :: int
  pixels :: "byte list"

text \<open>
  \<open>ctx.clearRect(0, 0, width, height); ctx.drawImage(img, 0, 0, width, height)\<close> followed by
  \<open>ctx.getImageData(0, 0, width, height)\<close> are the browser's: \<open>draw img width height\<close> is
  the byte array that the canvas then holds for that region, whatever the browser's
  decoding, resampling and alpha handling make of the image. \<open>processFrame\<close> returns that
  array untouched when keying is off and puts the keyed array back otherwise; its
  result here is the content of the region when it returns.
\<close>

definition processFrame ::
  "(Image \<Rightarrow> int \<Rightarrow> int \<Rightarrow> byte list) \<Rightarrow> Image \<Rightarrow> ChromaSettings \<Rightarrow> int \<Rightarrow> int \<Rightarrow> byte list" where
  "processFrame draw img settings w h =
     (let drawn = draw img w h in
      if \<not> enabled settings then drawn
      else
        let data = drawn;
            key = hexToRgb (color settings);
            similarityThreshold = numMul (similarity settings) 442;
            smoothRange = numMul (smoothness settings) 100
        in chromaLoop key similarityThreshold smoothRange data)"

section \<open>Application state\<close>

text \<open>
  One call \<open>ctx.drawImage(offCanvas, 0, 0, originalW, originalH, x, y, targetW, targetH)\<close>
  with finite arguments: the bytes of the off-screen canvas, its size, and the
  destination rectangle on the sheet.
\<close>

record Cell =
  source :: "byte list"
  sourceW :: int
  sourceH :: int
  destX :: int
  destY :: int
  destW :: int
  destH :: int

text \<open>
  The sheet canvas: the values assigned to \<open>canvas.width\<close> and \<open>canvas.height\<close> and the
  cells drawn, in order. The height is \<open>None\<close> when the assigned number is not finite
  (with \<open>columns = 0\<close> the row count is \<open>Math.ceil(n / 0) = Infinity\<close>).
\<close>

record Sheet =
  canvasWidth :: int
  canvasHeight :: "int option"
  cells :: "Cell list"

text \<open>
  The React state the two operations write. \<open>generatedSheetUrl\<close> is the PNG data URL of
  the sheet canvas (\<open>null\<close> is \<open>None\<close>); the model keeps the sheet it encodes. The
  progress bar, the busy flag of the extraction, the preview index and the playback
  state are written too and read by no operation modelled here.
\<close>

record AppState =
  frames :: "Frame list"
  generatedSheetUrl :: "Sheet option"
  showSheetPreview :: bool
  isGenerating :: bool

section \<open>Frame extraction: extractFrames (App.tsx, lines 143-215)\<close>

text \<open>
  Seeking the video to \<open>cursor\<close>, drawing it and \<open>canvas.toDataURL\<close> are the browser's:
  \<open>capture cursor\<close> is the data URL obtained at that time, and \<open>uuid k\<close> the result of
  the \<open>k\<close>-th call of \<open>crypto.randomUUID\<close>. Every seek is taken to complete and
  nothing in the loop body to throw.
\<close>

definition newFrame :: "(nat \<Rightarrow> string) \<Rightarrow> (real \<Rightarrow> string) \<Rightarrow> nat \<Rightarrow> real \<Rightarrow> Frame" where
  "newFrame uuid capture k cursor =
     \<lparr>id' = uuid k, timestamp = cursor, originalDataUrl = capture cursor, selected = True\<rparr>"

text \<open>
  Lines 170-203, \<open>while (cursor <= endTime)\<close>: push a frame, advance the cursor, and
  leave with an \<open>alert\<close> once \<open>extracted.length > 200\<close>. The result is the list and
  whether the alert was shown.
\<close>

function extractLoop ::
  "(nat \<Rightarrow> string) \<Rightarrow> (real \<Rightarrow> string) \<Rightarrow> real \<Rightarrow> real \<Rightarrow> real \<Rightarrow> Frame list \<Rightarrow> Frame list \<times> bool" where
  "extractLoop uuid capture endTime interval cursor extracted =
     (if cursor \<le> endTime then
        (if length (extracted @ [newFrame uuid capture (length extracted) cursor]) > 200
         then (extracted @ [newFrame uuid capture (length extracted) cursor], True)
         else extractLoop uuid capture endTime interval (numAdd cursor interval)
                (extracted @ [newFrame uuid capture (length extracted) cursor]))
      else (extracted, False))"
  by pat_completeness auto
termination
  by (relation "measure (\<lambda>(uuid, capture, endTime, interval, cursor, extracted).
        201 - length extracted)") auto

text \<open>
  Lines 161-163 and 208: \<open>interval = 1 / fps\<close>, the loop from \<open>startTime\<close>, then
  \<open>setFrames(extracted)\<close>. With \<open>fps = 0\<close> the interval is \<open>Infinity\<close>: after the first
  frame the cursor is beyond every \<open>endTime\<close>. The guards of lines 144 and 155 (no video
  element, no canvas, no context) return before the loop and are not modelled.
\<close>

definition extractFrames ::
  "(nat \<Rightarrow> string) \<Rightarrow> (real \<Rightarrow> string) \<Rightarrow> real \<Rightarrow> real \<Rightarrow> real \<Rightarrow> AppState \<Rightarrow> bool \<times> AppState" where
  "extractFrames uuid capture startTime endTime fps st =
     (let st0 = st\<lparr>frames := [], showSheetPreview := False\<rparr>;
          result =
            (if fps = 0
             then (if startTime \<le> endTime then ([newFrame uuid capture 0 startTime], False)
                   else ([], False))
             else extractLoop uuid capture endTime (numDiv 1 fps) startTime [])
      in (snd result, st0\<lparr>frames := fst result\<rparr>))"

section \<open>Sprite sheet generation: generateSpriteSheet (App.tsx, lines 281-371)\<close>

text \<open>
  The browser as \<open>generateSpriteSheet\<close> sees it: whether the sheet canvas is mounted,
  whether \<open>getContext('2d')\<close> gives a context on the sheet canvas and on the
  off-screen canvas, what \<open>loadImg\<close> resolves to for a data URL (\<open>None\<close>: the promise
  is rejected), and what drawing an image leaves on a canvas (the \<open>draw\<close> of
  \<open>processFrame\<close>).
\<close>

record Browser =
  sheetCanvasMounted :: bool
  sheetContext :: bool
  offContext :: bool
  loadImg :: "string \<Rightarrow> Image option"
  drawImage :: "Image \<Rightarrow> int \<Rightarrow> int \<Rightarrow> byte list"

text \<open>
  How a call ends: the \<open>console.error\<close> of line 283, the \<open>alert\<close> of line 292, the
  silent return of line 299, the \<open>alert\<close> of the \<open>catch\<close> block (line 367), or the
  publication of the data URL (lines 361-363). There is no other exit.
\<close>

datatype Outcome = NotReady | EmptySelection | NoContext | GenerationFailed | Generated

text \<open>
  Lines 320-326. The product is a double product; \<open>Math.round\<close> of a double is exact and
  rounds half up, as \<^const>\<open>round\<close> does.
\<close>

definition targetSize :: "SheetSettings \<Rightarrow> int \<Rightarrow> int \<Rightarrow> int \<times> int" where
  "targetSize sheetSettings originalW originalH =
     (if outputMode sheetSettings = Fixed
      then (customWidth sheetSettings, customHeight sheetSettings)
      else (round (numMul (real_of_int originalW) (scale sheetSettings)),
            round (numMul (real_of_int originalH) (scale sheetSettings))))"

text \<open>
  Line 329, \<open>Math.ceil(selectedFrames.length / cols)\<close>; not finite when \<open>cols = 0\<close>. The
  quotient of two integers is written exactly here and in \<open>floorQuotient\<close>: its double
  lies on the same side of every integer (lemmas \<open>floor_numDiv\<close> and \<open>ceiling_numDiv\<close>,
  for a count and a column number up to \<open>2 ^ 26\<close>).
\<close>

definition gridRows :: "nat \<Rightarrow> int \<Rightarrow> int option" where
  "gridRows n cols = (if cols = 0 then None else Some \<lceil>real n / real_of_int cols\<rceil>)"

text \<open>
  The \<open>%\<close> of JavaScript takes the sign of the dividend; \<open>Math.floor(i / cols)\<close> is the
  quotient rounded down. Both for \<open>cols \<noteq> 0\<close>.
\<close>

definition jsRemainder :: "int \<Rightarrow> int \<Rightarrow> int" where
  "jsRemainder i cols = sgn i * (\<bar>i\<bar> mod \<bar>cols\<bar>)"

definition floorQuotient :: "int \<Rightarrow> int \<Rightarrow> int" where
  "floorQuotient i cols = \<lfloor>real_of_int i / real_of_int cols\<rfloor>"

text \<open>
  Lines 344-359, the loop over \<open>selectedFrames\<close> from index \<open>i\<close> on. A frame whose
  image does not load rejects the promise and ends the loop in the \<open>catch\<close> block
  (\<open>None\<close>). With \<open>cols = 0\<close> the coordinates are \<open>NaN\<close>, and \<open>drawImage\<close> returns
  without drawing when an argument is not finite.
\<close>

fun placeFrames ::
  "Browser \<Rightarrow> ChromaSettings \<Rightarrow> SheetSettings \<Rightarrow> int \<Rightarrow> int \<Rightarrow> int \<Rightarrow> int \<Rightarrow> nat \<Rightarrow> Frame list \<Rightarrow> Cell list option" where
  "placeFrames env chromaSettings sheetSettings originalW originalH targetW targetH i [] = Some []"
| "placeFrames env chromaSettings sheetSettings originalW originalH targetW targetH i (frame # rest) =
     (case loadImg env (originalDataUrl frame) of
        None \<Rightarrow> None
      | Some img \<Rightarrow>
          (let cols = columns sheetSettings;
               drawn =
                 (if cols = 0 then []
                  else
                    let col = jsRemainder (int i) cols;
                        row = floorQuotient (int i) cols;
                        x = col * (targetW + padding sheetSettings);
                        y = row * (targetH + padding sheetSettings)
                    in [\<lparr>source = processFrame (drawImage env) img chromaSettings originalW originalH,
                         sourceW = originalW, sourceH = originalH,
                         destX = x, destY = y, destW = targetW, destH = targetH\<rparr>])
           in case placeFrames env chromaSettings sheetSettings originalW originalH
                     targetW targetH (Suc i) rest of
                None \<Rightarrow> None
              | Some later \<Rightarrow> Some (drawn @ later)))"

definition generateSpriteSheet ::
  "Browser \<Rightarrow> ChromaSettings \<Rightarrow> SheetSettings \<Rightarrow> AppState \<Rightarrow> Outcome \<times> AppState" where
  "generateSpriteSheet env chromaSettings sheetSettings st =
     (if frames st = [] \<or> \<not> sheetCanvasMounted env then (NotReady, st)
      else
        let st1 = st\<lparr>isGenerating := True, generatedSheetUrl := None\<rparr>;
            selectedFrames = filter selected (frames st1)
        in if selectedFrames = [] then (EmptySelection, st1\<lparr>isGenerating := False\<rparr>)
           else if \<not> sheetContext env then (NoContext, st1)
           else
             (case loadImg env (originalDataUrl (hd selectedFrames)) of
                None \<Rightarrow> (GenerationFailed, st1\<lparr>isGenerating := False\<rparr>)
              | Some firstImg \<Rightarrow>
                  let originalW = width firstImg;
                      originalH = height firstImg;
                      targetW = fst (targetSize sheetSettings originalW originalH);
                      targetH = snd (targetSize sheetSettings originalW originalH);
                      cols = columns sheetSettings;
                      rows = gridRows (length selectedFrames) cols;
                      canvas = \<lparr>canvasWidth = cols * targetW + (cols - 1) * padding sheetSettings,
                                canvasHeight =
                                  map_option (\<lambda>r. r * targetH + (r - 1) * padding sheetSettings) rows,
                                cells = []\<rparr>
                  in if \<not> offContext env then (GenerationFailed, st1\<lparr>isGenerating := False\<rparr>)
                     else
                       (case placeFrames env chromaSettings sheetSettings originalW originalH
                               targetW targetH 0 selectedFrames of
                          None \<Rightarrow> (GenerationFailed, st1\<lparr>isGenerating := False\<rparr>)
                        | Some drawn \<Rightarrow>
                            (Generated,
                             st1\<lparr>generatedSheetUrl := Some (canvas\<lparr>cells := drawn\<rparr>),
                                 showSheetPreview := True,
                                 isGenerating := False\<rparr>))))"

text \<open>
  The only caller is the button of line 799. It belongs to the editor, which is rendered
  under the condition of line 646; the sheet canvas itself is always in the document
  (line 940).
\<close>

definition editorRendered :: "AppState \<Rightarrow> bool" where
  "editorRendered st \<longleftrightarrow> frames st \<noteq> [] \<and> \<not> showSheetPreview st"

section \<open>Example inputs\<close>

text \<open>
  The chroma settings of the initial state (lines 68-74); \<open>0.25\<close> is a double, \<open>0.1\<close> is
  not and stands for the double nearest to it.
\<close>

definition exampleSettings :: ChromaSettings where
  "exampleSettings = \<lparr>enabled = True, color = ''#00ff00'', similarity = 1 / 4,
     smoothness = toDouble (1 / 10), spill = toDouble (1 / 10)\<rparr>"

text \<open>The slider positions \<open>0.1\<close> and \<open>0.69\<close>.\<close>

definition sliderSettings :: ChromaSettings where
  "sliderSettings = \<lparr>enabled = True, color = ''#00ff00'', similarity = toDouble (1 / 10),
     smoothness = toDouble (69 / 100), spill = toDouble (1 / 10)\<rparr>"

definition exampleImage :: Image where
  "exampleImage = \<lparr>width = 3, height = 1,
     pixels = [0, 255, 0, 255,  115, 255, 0, 255,  128, 128, 128, 255]\<rparr>"

definition onePixel :: Image where
  "onePixel = \<lparr>width = 1, height = 1, pixels = [104, 255, 0, 255]\<rparr>"

text \<open>A browser whose canvas returns the bytes of the image drawn on it.\<close>

definition copyingDraw :: "Image \<Rightarrow> int \<Rightarrow> int \<Rightarrow> byte list" where
  "copyingDraw img w h = pixels img"

definition exampleFrame :: "nat \<Rightarrow> bool \<Rightarrow> Frame" where
  "exampleFrame k sel =
     \<lparr>id' = replicate (Suc k) CHR ''f'', timestamp = real k / 5,
      originalDataUrl = ''data:image/png;base64,AAAA'', selected = sel\<rparr>"

definition tenFrames :: "Frame list" where
  "tenFrames = map (\<lambda>k. exampleFrame k True) [0, 1, 2, 3, 4, 5, 6, 7, 8, 9]"

definition exampleBrowser :: Browser where
  "exampleBrowser = \<lparr>sheetCanvasMounted = True, sheetContext = True, offContext = True,
      loadImg = (\<lambda>_. Some exampleImage), drawImage = copyingDraw\<rparr>"

definition exampleLayout :: SheetSettings where
  "exampleLayout = \<lparr>columns = 5, scale = 1 / 2, padding = 2, outputMode = Fixed,
      customWidth = 100, customHeight = 100\<rparr>"

definition exampleState :: AppState where
  "exampleState = \<lparr>frames = tenFrames, generatedSheetUrl = None, showSheetPreview = False,
      isGenerating = False\<rparr>"

definition unselectedState :: AppState where
  "unselectedState = \<lparr>frames = [exampleFrame 0 False, exampleFrame 1 False],
      generatedSheetUrl = None, showSheetPreview = False, isGenerating = False\<rparr>"

section \<open>Verified properties\<close>

subsection \<open>Rounding to double precision\<close>

lemma roundTiesToEven_of_int: "roundTiesToEven (of_int n) = n"
  by (simp add: roundTiesToEven_def)

lemma roundTiesToEven_bounds:
  "\<lfloor>x\<rfloor> \<le> roundTiesToEven x" "roundTiesToEven x \<le> \<lfloor>x\<rfloor> + 1"
  by (simp_all add: roundTiesToEven_def Let_def)

lemma roundTiesToEven_mono:
  assumes "x \<le> y"
  shows "roundTiesToEven x \<le> roundTiesToEven y"
proof (cases "\<lfloor>x\<rfloor> < \<lfloor>y\<rfloor>")
  case True
  have "roundTiesToEven x \<le> \<lfloor>x\<rfloor> + 1" by (rule roundTiesToEven_bounds)
  also from True have "\<dots> \<le> \<lfloor>y\<rfloor>" by simp
  also have "\<dots> \<le> roundTiesToEven y" by (rule roundTiesToEven_bounds)
  finally show ?thesis .
next
  case False
  with floor_mono [OF assms] have eq: "\<lfloor>y\<rfloor> = \<lfloor>x\<rfloor>" by simp
  from assms have "x - of_int \<lfloor>x\<rfloor> \<le> y - of_int \<lfloor>x\<rfloor>" by simp
  then show ?thesis
    unfolding roundTiesToEven_def Let_def eq by auto
qed

lemma roundTiesToEven_minus: "roundTiesToEven (- x) = - roundTiesToEven x"
proof (cases "x = of_int \<lfloor>x\<rfloor>")
  case True
  then obtain n where "x = of_int n" ..
  then have "- x = of_int (- n)" by simp
  with \<open>x = of_int n\<close> show ?thesis by (simp only: roundTiesToEven_of_int)
next
  case False
  then have c: "\<lceil>x\<rceil> = \<lfloor>x\<rfloor> + 1" by (simp add: ceiling_altdef)
  have f: "\<lfloor>- x\<rfloor> = - \<lfloor>x\<rfloor> - 1" using c by (simp add: floor_minus)
  define n where "n = \<lfloor>x\<rfloor>"
  define r where "r = x - of_int n"
  have x: "x = of_int n + r" by (simp add: r_def)
  have r': "- x - of_int (- n - 1) = 1 - r" by (simp add: r_def)
  have ev: "even (- n - 1) \<longleftrightarrow> odd n" by simp
  show ?thesis
    unfolding roundTiesToEven_def Let_def f n_def [symmetric] r' r_def [symmetric] ev
    by auto
qed

lemma two_powr_powi: "(2::real) powr real_of_int k = 2 powi k"
  by (rule powr_real_of_int') simp_all

lemma binade:
  assumes "x \<noteq> 0"
  shows "2 powi \<lfloor>log 2 \<bar>x\<bar>\<rfloor> \<le> \<bar>x\<bar>" and "\<bar>x\<bar> < 2 powi (\<lfloor>log 2 \<bar>x\<bar>\<rfloor> + 1)"
proof -
  from assms have pos: "0 < \<bar>x\<bar>" by simp
  have "\<lfloor>log 2 \<bar>x\<bar>\<rfloor> = \<lfloor>log 2 \<bar>x\<bar>\<rfloor>" ..
  with floor_log_eq_powr_iff [OF pos, of 2 "\<lfloor>log 2 \<bar>x\<bar>\<rfloor>"]
  have "2 powr real_of_int \<lfloor>log 2 \<bar>x\<bar>\<rfloor> \<le> \<bar>x\<bar>"
    and "\<bar>x\<bar> < 2 powr (real_of_int \<lfloor>log 2 \<bar>x\<bar>\<rfloor> + 1)"
    by simp_all
  moreover have "real_of_int \<lfloor>log 2 \<bar>x\<bar>\<rfloor> + 1 = real_of_int (\<lfloor>log 2 \<bar>x\<bar>\<rfloor> + 1)" by simp
  ultimately show "2 powi \<lfloor>log 2 \<bar>x\<bar>\<rfloor> \<le> \<bar>x\<bar>"
    and "\<bar>x\<bar> < 2 powi (\<lfloor>log 2 \<bar>x\<bar>\<rfloor> + 1)"
    by (simp_all only: two_powr_powi)
qed

lemma binade_unique:
  assumes "2 powi e \<le> \<bar>x\<bar>" and "\<bar>x\<bar> < 2 powi (e + 1)"
  shows "\<lfloor>log 2 \<bar>x\<bar>\<rfloor> = e"
proof -
  have "(0::real) < 2 powi e" by simp
  with assms(1) have pos: "0 < \<bar>x\<bar>" by linarith
  have "real_of_int e + 1 = real_of_int (e + 1)" by simp
  with assms have "2 powr real_of_int e \<le> \<bar>x\<bar> \<and> \<bar>x\<bar> < 2 powr (real_of_int e + 1)"
    by (simp only: two_powr_powi)
  with floor_log_eq_powr_iff [OF pos, of 2 e] show ?thesis by simp
qed


lemma toDouble_eval:
  assumes "2 powi e \<le> \<bar>x\<bar>" and "\<bar>x\<bar> < 2 powi (e + 1)" and "- 1022 \<le> e"
  shows "toDouble x = of_int (roundTiesToEven (x / 2 powi (e - 52))) * 2 powi (e - 52)"
proof -
  have "(0::real) < 2 powi e" by simp
  with assms(1) have "0 < \<bar>x\<bar>" by linarith
  then have nz: "x \<noteq> 0" by simp
  from binade_unique [OF assms(1,2)] assms(3) have "ulpExponent x = e - 52"
    by (simp add: ulpExponent_def)
  with nz show ?thesis by (simp add: toDouble_def)
qed

lemma ulpExponent_ge: "- 1074 \<le> ulpExponent x"
  by (simp add: ulpExponent_def)

lemma ulpExponent_minus: "ulpExponent (- x) = ulpExponent x"
  by (simp add: ulpExponent_def)

lemma toDouble_minus: "toDouble (- x) = - toDouble x"
  by (simp add: toDouble_def ulpExponent_minus roundTiesToEven_minus)

lemma toDouble_zero: "toDouble 0 = 0"
  by (simp add: toDouble_def)

lemma toDouble_nonneg:
  assumes "0 \<le> x"
  shows "0 \<le> toDouble x"
proof (cases "x = 0")
  case True
  then show ?thesis by (simp add: toDouble_def)
next
  case False
  from assms have "0 \<le> x / 2 powi ulpExponent x" by simp
  then have "0 \<le> \<lfloor>x / 2 powi ulpExponent x\<rfloor>" by simp
  also have "\<dots> \<le> roundTiesToEven (x / 2 powi ulpExponent x)"
    by (rule roundTiesToEven_bounds)
  finally have "0 \<le> real_of_int (roundTiesToEven (x / 2 powi ulpExponent x))" by simp
  moreover have "(0::real) \<le> 2 powi ulpExponent x" by simp
  ultimately have "0 \<le> real_of_int (roundTiesToEven (x / 2 powi ulpExponent x))
      * 2 powi ulpExponent x"
    by (rule mult_nonneg_nonneg)
  with False show ?thesis by (simp only: toDouble_def if_False)
qed

lemma toDouble_nonpos:
  assumes "x \<le> 0"
  shows "toDouble x \<le> 0"
proof -
  from assms have "0 \<le> - x" by simp
  then have "0 \<le> toDouble (- x)" by (rule toDouble_nonneg)
  then show ?thesis by (simp add: toDouble_minus)
qed

text \<open>The scaled value stays below \<open>2 ^ 53\<close>; so does the integer it is rounded to.\<close>

lemma scaled_less:
  assumes "x \<noteq> 0"
  shows "\<bar>x\<bar> < 2 powi (ulpExponent x + 53)"
proof -
  have "\<bar>x\<bar> < 2 powi (\<lfloor>log 2 \<bar>x\<bar>\<rfloor> + 1)" using assms by (rule binade)
  also have "\<dots> \<le> 2 powi (ulpExponent x + 53)"
    by (rule power_int_increasing) (simp_all add: ulpExponent_def)
  finally show ?thesis .
qed

lemma powi_split: "(2::real) powi (a + b) = 2 powi a * 2 powi b"
  by (rule power_int_add) simp

lemma scaled_abs_less:
  assumes "x \<noteq> 0"
  shows "\<bar>x / 2 powi ulpExponent x\<bar> < 2 ^ 53"
proof -
  have p: "(0::real) < 2 powi ulpExponent x" by simp
  from scaled_less [OF assms]
  have "\<bar>x\<bar> < 2 powi ulpExponent x * 2 powi 53" by (simp only: powi_split)
  then have "\<bar>x\<bar> / 2 powi ulpExponent x < 2 powi 53"
    using p by (simp add: field_simps)
  then show ?thesis by simp
qed

lemma mantissa_bound:
  assumes "x \<noteq> 0"
  shows "\<bar>roundTiesToEven (x / 2 powi ulpExponent x)\<bar> \<le> 2 ^ 53"
proof -
  let ?z = "x / 2 powi ulpExponent x"
  from scaled_abs_less [OF assms] have "?z < 2 ^ 53" and "- (2 ^ 53) < ?z" by linarith+
  from \<open>?z < 2 ^ 53\<close> have "?z < real_of_int (2 ^ 53)" by simp
  then have "\<lfloor>?z\<rfloor> < 2 ^ 53" by (simp only: floor_less_iff)
  with roundTiesToEven_bounds(2) [of ?z] have up: "roundTiesToEven ?z \<le> 2 ^ 53" by linarith
  from \<open>- (2 ^ 53) < ?z\<close> have "real_of_int (- (2 ^ 53)) \<le> ?z" by simp
  then have "- (2 ^ 53) \<le> \<lfloor>?z\<rfloor>" by (simp only: le_floor_iff)
  with roundTiesToEven_bounds(1) [of ?z] have "- (2 ^ 53) \<le> roundTiesToEven ?z" by linarith
  with up show ?thesis by linarith
qed

text \<open>An integer below \<open>2 ^ 53\<close> times a power of two from \<open>2 ^ -1074\<close> on is a double.\<close>

lemma toDouble_representable:
  assumes "\<bar>m\<bar> < 2 ^ 53" and "- 1074 \<le> j"
  shows "toDouble (of_int m * 2 powi j) = of_int m * 2 powi j"
proof (cases "m = 0")
  case True
  then show ?thesis by (simp add: toDouble_def)
next
  case False
  let ?x = "real_of_int m * 2 powi j"
  from False have nz: "?x \<noteq> 0" by simp
  define E where "E = ulpExponent ?x"
  have "\<bar>?x\<bar> = real_of_int \<bar>m\<bar> * 2 powi j" by (simp add: abs_mult)
  also have "\<dots> < 2 ^ 53 * 2 powi j"
  proof (rule mult_strict_right_mono)
    from assms(1) have "real_of_int \<bar>m\<bar> < real_of_int (2 ^ 53)" by (simp only: of_int_less_iff)
    then show "real_of_int \<bar>m\<bar> < 2 ^ 53" by simp
    show "(0::real) < 2 powi j" by simp
  qed
  also have "\<dots> = 2 powi (53 + j)" by (simp add: powi_split)
  finally have lt: "\<bar>?x\<bar> < 2 powi (53 + j)" .
  have "2 powi \<lfloor>log 2 \<bar>?x\<bar>\<rfloor> \<le> \<bar>?x\<bar>" using nz by (rule binade)
  with lt have "(2::real) powi \<lfloor>log 2 \<bar>?x\<bar>\<rfloor> < 2 powi (53 + j)" by linarith
  have "\<lfloor>log 2 \<bar>?x\<bar>\<rfloor> < 53 + j"
  proof (rule ccontr)
    assume "\<not> \<lfloor>log 2 \<bar>?x\<bar>\<rfloor> < 53 + j"
    then have "53 + j \<le> \<lfloor>log 2 \<bar>?x\<bar>\<rfloor>" by simp
    then have "(2::real) powi (53 + j) \<le> 2 powi \<lfloor>log 2 \<bar>?x\<bar>\<rfloor>"
      by (rule power_int_increasing) simp
    with \<open>(2::real) powi \<lfloor>log 2 \<bar>?x\<bar>\<rfloor> < 2 powi (53 + j)\<close> show False by linarith
  qed
  with assms(2) have Ej: "E \<le> j" by (simp add: E_def ulpExponent_def)
  define d where "d = nat (j - E)"
  from Ej have j: "j = E + int d" by (simp add: d_def)
  have "?x / 2 powi E = real_of_int m * 2 powi (int d)"
    by (simp add: j powi_split)
  also have "\<dots> = real_of_int (m * 2 ^ d)" by simp
  finally have "roundTiesToEven (?x / 2 powi E) = m * 2 ^ d"
    by (simp only: roundTiesToEven_of_int)
  then have "toDouble ?x = real_of_int (m * 2 ^ d) * 2 powi E"
    using nz by (simp only: toDouble_def E_def if_False)
  also have "\<dots> = real_of_int m * (2 powi (int d) * 2 powi E)" by simp
  also have "2 powi (int d) * 2 powi E = (2::real) powi j"
    by (simp add: j powi_split)
  finally show ?thesis .
qed

lemma toDouble_of_int:
  assumes "\<bar>m\<bar> < 2 ^ 53"
  shows "toDouble (of_int m) = of_int m"
  using toDouble_representable [OF assms, of 0] by simp

lemma toDouble_idem: "toDouble (toDouble x) = toDouble x"
proof (cases "x = 0")
  case True
  then show ?thesis by (simp add: toDouble_def)
next
  case False
  define E where "E = ulpExponent x"
  define n where "n = roundTiesToEven (x / 2 powi E)"
  have fx: "toDouble x = of_int n * 2 powi E"
    using False by (simp add: toDouble_def n_def E_def)
  have E: "- 1074 \<le> E" unfolding E_def by (rule ulpExponent_ge)
  from mantissa_bound [OF False] have n: "\<bar>n\<bar> \<le> 2 ^ 53" by (simp add: n_def E_def)
  show ?thesis
  proof (cases "\<bar>n\<bar> < 2 ^ 53")
    case True
    from toDouble_representable [OF True E] show ?thesis by (simp only: fx)
  next
    case False
    with n have "\<bar>n\<bar> = 2 ^ 53" by simp
    then consider "n = 2 ^ 53" | "n = - (2 ^ 53)" by linarith
    then obtain m :: int where m: "\<bar>m\<bar> < 2 ^ 53" and nm: "n = 2 * m"
    proof cases
      case 1
      then have "n = 2 * 2 ^ 52" by simp
      moreover have "\<bar>2 ^ 52 :: int\<bar> < 2 ^ 53" by simp
      ultimately show ?thesis using that by blast
    next
      case 2
      then have "n = 2 * (- (2 ^ 52))" by simp
      moreover have "\<bar>- (2 ^ 52) :: int\<bar> < 2 ^ 53" by simp
      ultimately show ?thesis using that by blast
    qed
    have "real_of_int n * 2 powi E = real_of_int m * (2 powi 1 * 2 powi E)"
      by (simp add: nm)
    also have "2 powi 1 * 2 powi E = (2::real) powi (E + 1)"
      by (simp add: powi_split)
    finally have eq: "real_of_int n * 2 powi E = real_of_int m * 2 powi (E + 1)" .
    from E have "- 1074 \<le> E + 1" by simp
    from toDouble_representable [OF m this] show ?thesis by (simp only: fx eq)
  qed
qed


lemma toDouble_upper:
  assumes "x \<noteq> 0"
  shows "toDouble x \<le> 2 powi (ulpExponent x + 53)"
proof -
  let ?n = "roundTiesToEven (x / 2 powi ulpExponent x)"
  from mantissa_bound [OF assms] have "?n \<le> 2 ^ 53" by linarith
  then have "real_of_int ?n \<le> real_of_int (2 ^ 53)" by (simp only: of_int_le_iff)
  then have "real_of_int ?n \<le> 2 powi 53" by simp
  then have "real_of_int ?n * 2 powi ulpExponent x \<le> 2 powi 53 * 2 powi ulpExponent x"
    by (rule mult_right_mono) simp
  also have "\<dots> = 2 powi (ulpExponent x + 53)" by (simp add: powi_split)
  finally show ?thesis using assms by (simp only: toDouble_def if_False)
qed

lemma toDouble_lower:
  assumes "0 < x" and "- 1022 \<le> \<lfloor>log 2 \<bar>x\<bar>\<rfloor>"
  shows "2 powi (ulpExponent x + 52) \<le> toDouble x"
proof -
  from assms(1) have nz: "x \<noteq> 0" by simp
  let ?E = "ulpExponent x"
  let ?n = "roundTiesToEven (x / 2 powi ?E)"
  from assms(2) have E: "?E + 52 = \<lfloor>log 2 \<bar>x\<bar>\<rfloor>" by (simp add: ulpExponent_def)
  have "2 powi (?E + 52) \<le> \<bar>x\<bar>" unfolding E using nz by (rule binade)
  with assms(1) have "2 powi ?E * 2 powi 52 \<le> x" by (simp add: powi_split)
  then have "2 powi 52 \<le> x / 2 powi ?E" by (simp add: field_simps)
  then have "real_of_int (2 ^ 52) \<le> x / 2 powi ?E" by simp
  then have "2 ^ 52 \<le> \<lfloor>x / 2 powi ?E\<rfloor>" by (simp only: le_floor_iff)
  with roundTiesToEven_bounds(1) [of "x / 2 powi ?E"] have "2 ^ 52 \<le> ?n" by linarith
  then have "real_of_int (2 ^ 52) \<le> real_of_int ?n" by (simp only: of_int_le_iff)
  then have "2 powi 52 \<le> real_of_int ?n" by simp
  then have "2 powi 52 * 2 powi ?E \<le> real_of_int ?n * 2 powi ?E"
    by (rule mult_right_mono) simp
  moreover have "2 powi 52 * 2 powi ?E = (2::real) powi (?E + 52)" by (simp add: powi_split)
  ultimately show ?thesis using nz by (simp only: toDouble_def if_False)
qed

lemma toDouble_mono_pos:
  assumes "0 < x" and "x \<le> y"
  shows "toDouble x \<le> toDouble y"
proof -
  from assms have y: "0 < y" by linarith
  from assms y have "log 2 \<bar>x\<bar> \<le> log 2 \<bar>y\<bar>" by simp
  then have fl: "\<lfloor>log 2 \<bar>x\<bar>\<rfloor> \<le> \<lfloor>log 2 \<bar>y\<bar>\<rfloor>" by (rule floor_mono)
  then have E: "ulpExponent x \<le> ulpExponent y" by (simp add: ulpExponent_def)
  from assms(1) y have nz: "x \<noteq> 0" "y \<noteq> 0" by simp_all
  show ?thesis
  proof (cases "ulpExponent x = ulpExponent y")
    case True
    from assms(2) have "x / 2 powi ulpExponent y \<le> y / 2 powi ulpExponent y"
      by (rule divide_right_mono) simp
    then have "roundTiesToEven (x / 2 powi ulpExponent y)
        \<le> roundTiesToEven (y / 2 powi ulpExponent y)"
      by (rule roundTiesToEven_mono)
    then have "real_of_int (roundTiesToEven (x / 2 powi ulpExponent y))
        \<le> real_of_int (roundTiesToEven (y / 2 powi ulpExponent y))"
      by (simp only: of_int_le_iff)
    then have "real_of_int (roundTiesToEven (x / 2 powi ulpExponent y)) * 2 powi ulpExponent y
        \<le> real_of_int (roundTiesToEven (y / 2 powi ulpExponent y)) * 2 powi ulpExponent y"
      by (rule mult_right_mono) simp
    with nz True show ?thesis by (simp only: toDouble_def if_False)
  next
    case False
    with E have lt: "ulpExponent x < ulpExponent y" by simp
    from lt have "- 1022 \<le> \<lfloor>log 2 \<bar>y\<bar>\<rfloor>" unfolding ulpExponent_def by arith
    with y have low: "2 powi (ulpExponent y + 52) \<le> toDouble y" by (rule toDouble_lower)
    have "toDouble x \<le> 2 powi (ulpExponent x + 53)" using nz(1) by (rule toDouble_upper)
    also from lt have "\<dots> \<le> 2 powi (ulpExponent y + 52)"
      by (intro power_int_increasing) simp_all
    also note low
    finally show ?thesis .
  qed
qed

lemma toDouble_mono:
  assumes "x \<le> y"
  shows "toDouble x \<le> toDouble y"
proof (cases "0 < x")
  case True
  then show ?thesis using assms by (rule toDouble_mono_pos)
next
  case False
  then have x: "x \<le> 0" by simp
  show ?thesis
  proof (cases "0 \<le> y")
    case True
    from toDouble_nonpos [OF x] toDouble_nonneg [OF True] show ?thesis by linarith
  next
    case False
    then have "0 < - y" by simp
    moreover from assms have "- y \<le> - x" by simp
    ultimately have "toDouble (- y) \<le> toDouble (- x)" by (rule toDouble_mono_pos)
    then show ?thesis by (simp add: toDouble_minus)
  qed
qed

subsection \<open>Key colour\<close>

lemma hexDigitValue_le: "hexDigitValue c \<le> 15"
  unfolding hexDigitValue_def Let_def by (cases "of_char c :: nat") auto

lemma parseInt16_le: "parseInt16 a b \<le> 255"
  using hexDigitValue_le [of a] hexDigitValue_le [of b] by (simp add: parseInt16_def)

lemma matchGroups_Some:
  assumes "matchGroups s = Some m"
  shows "length s = 6 \<and> list_all isHexDigit s \<and>
         (case m of (r, g, b) \<Rightarrow> r \<le> 255 \<and> g \<le> 255 \<and> b \<le> 255)"
  using assms
  by (cases s rule: matchGroups.cases) (auto simp: parseInt16_le split: if_splits)

lemma hash_not_hex: "\<not> isHexDigit CHR ''#''"
  by (simp add: isHexDigit_def)

lemma regexExec_Some:
  assumes "regexExec s = Some m"
  shows "validHexColor s \<and> (case m of (r, g, b) \<Rightarrow> r \<le> 255 \<and> g \<le> 255 \<and> b \<le> 255)"
proof (cases s)
  case Nil
  with assms show ?thesis by (simp add: regexExec_def)
next
  case (Cons c t)
  show ?thesis
  proof (cases "c = CHR ''#''")
    case True
    show ?thesis
    proof (cases "matchGroups t")
      case None
      with assms Cons True have "matchGroups s = Some m" by (simp add: regexExec_def)
      from matchGroups_Some [OF this] Cons True hash_not_hex show ?thesis by simp
    next
      case (Some m')
      with assms Cons True have "m' = m" by (simp add: regexExec_def)
      with Some matchGroups_Some [of t m] Cons True show ?thesis
        by (simp add: validHexColor_def)
    qed
  next
    case False
    with assms Cons have "matchGroups s = Some m" by (simp add: regexExec_def)
    from matchGroups_Some [OF this] Cons False show ?thesis
      by (simp add: validHexColor_def)
  qed
qed

text \<open>
  Claim C10. A string that is not a valid colour (six hexadecimal digits, with an
  optional leading \<open>#\<close>) gives the key colour \<open>(0, 255, 0)\<close>; and for every string
  whatever \<open>hexToRgb\<close> returns three channels in \<open>0..255\<close>, so \<open>processFrame\<close> always
  has a key colour.
\<close>

theorem hexToRgb_fallback:
  "(\<not> validHexColor s \<longrightarrow> hexToRgb s = (0, 255, 0)) \<and>
   (case hexToRgb s of (r, g, b) \<Rightarrow> r \<le> 255 \<and> g \<le> 255 \<and> b \<le> 255)"
proof (cases "regexExec s")
  case None
  then show ?thesis by (simp add: hexToRgb_def)
next
  case (Some m)
  from regexExec_Some [OF this] Some show ?thesis by (simp add: hexToRgb_def)
qed


text \<open>The string \<open>green\<close> is not a valid colour and parses to \<open>(0, 255, 0)\<close>.\<close>

theorem hexToRgb_fallback_witness:
  "\<not> validHexColor ''green'' \<and> hexToRgb ''green'' = (0, 255, 0)"
proof -
  have nv: "\<not> validHexColor ''green''" by (simp add: validHexColor_def)
  from hexToRgb_fallback [of "''green''"] nv show ?thesis by simp
qed

lemma hexToRgb_channels:
  assumes "hexToRgb s = (kr, kg, kb)"
  shows "kr \<le> 255" and "kg \<le> 255" and "kb \<le> 255"
proof -
  have "case hexToRgb s of (r, g, b) \<Rightarrow> r \<le> 255 \<and> g \<le> 255 \<and> b \<le> 255"
  proof (cases "regexExec s")
    case None
    then show ?thesis by (simp add: hexToRgb_def)
  next
    case (Some m)
    from regexExec_Some [OF this] Some show ?thesis by (simp add: hexToRgb_def)
  qed
  with assms show "kr \<le> 255" and "kg \<le> 255" and "kb \<le> 255" by simp_all
qed

subsection \<open>Chroma key\<close>

lemma numMul_double: "toDouble (numMul a b) = numMul a b"
  by (simp only: numMul_def toDouble_idem)

lemma mathSqrt_double: "toDouble (mathSqrt x) = mathSqrt x"
  by (simp only: mathSqrt_def toDouble_idem)

lemma toDouble_small_int:
  assumes "\<bar>m\<bar> \<le> 200000"
  shows "toDouble (real_of_int m) = real_of_int m"
proof -
  from assms have "\<bar>m\<bar> < 2 ^ 53" by simp
  then show ?thesis by (rule toDouble_of_int)
qed

text \<open>Differences of bytes, their squares and the sum of three squares are exact.\<close>

lemma colorDist_exact:
  assumes "kr \<le> 255" and "kg \<le> 255" and "kb \<le> 255"
  shows "colorDist (kr, kg, kb) r g b =
           mathSqrt ((real (unat r) - real kr)\<^sup>2 + (real (unat g) - real kg)\<^sup>2
                     + (real (unat b) - real kb)\<^sup>2)"
proof -
  define dr where "dr = uint r - int kr"
  define dg where "dg = uint g - int kg"
  define db where "db = uint b - int kb"
  have ur: "uint r < 256" and ug: "uint g < 256" and ub: "uint b < 256"
    using uint_lt2p [of r] uint_lt2p [of g] uint_lt2p [of b] by simp_all
  have "0 \<le> uint r" "0 \<le> uint g" "0 \<le> uint b" by simp_all
  with ur ug ub assms have r: "\<bar>dr\<bar> \<le> 255" and g: "\<bar>dg\<bar> \<le> 255" and b: "\<bar>db\<bar> \<le> 255"
    unfolding dr_def dg_def db_def by linarith+
  have sq: "\<bar>x * x\<bar> \<le> 65025" if "\<bar>x\<bar> \<le> 255" for x :: int
  proof -
    from that have "\<bar>x\<bar> * \<bar>x\<bar> \<le> 255 * 255" by (intro mult_mono) simp_all
    then show ?thesis by (simp add: abs_mult)
  qed
  note s = sq [OF r] sq [OF g] sq [OF b]
  have er: "real (unat r) - real kr = real_of_int dr"
    and eg: "real (unat g) - real kg = real_of_int dg"
    and eb: "real (unat b) - real kb = real_of_int db"
    by (simp_all add: dr_def dg_def db_def)
  have sr: "numSub (real (unat r)) (real kr) = real_of_int dr"
    unfolding numSub_def er using r by (intro toDouble_small_int) simp
  have sg: "numSub (real (unat g)) (real kg) = real_of_int dg"
    unfolding numSub_def eg using g by (intro toDouble_small_int) simp
  have sb: "numSub (real (unat b)) (real kb) = real_of_int db"
    unfolding numSub_def eb using b by (intro toDouble_small_int) simp
  have m: "numMul (real_of_int x) (real_of_int x) = real_of_int (x * x)"
    if "\<bar>x * x\<bar> \<le> 65025" for x :: int
  proof -
    have "numMul (real_of_int x) (real_of_int x) = toDouble (real_of_int (x * x))"
      by (simp add: numMul_def)
    also have "\<dots> = real_of_int (x * x)" using that by (intro toDouble_small_int) simp
    finally show ?thesis .
  qed
  have a1: "numAdd (real_of_int (dr * dr)) (real_of_int (dg * dg))
      = real_of_int (dr * dr + dg * dg)"
  proof -
    have "numAdd (real_of_int (dr * dr)) (real_of_int (dg * dg))
        = toDouble (real_of_int (dr * dr + dg * dg))"
      by (simp add: numAdd_def)
    also have "\<dots> = real_of_int (dr * dr + dg * dg)"
      using s(1,2) by (intro toDouble_small_int) linarith
    finally show ?thesis .
  qed
  have a2: "numAdd (real_of_int (dr * dr + dg * dg)) (real_of_int (db * db))
      = real_of_int (dr * dr + dg * dg + db * db)"
  proof -
    have "numAdd (real_of_int (dr * dr + dg * dg)) (real_of_int (db * db))
        = toDouble (real_of_int (dr * dr + dg * dg + db * db))"
      by (simp add: numAdd_def)
    also have "\<dots> = real_of_int (dr * dr + dg * dg + db * db)"
      using s by (intro toDouble_small_int) linarith
    finally show ?thesis .
  qed
  have "colorDist (kr, kg, kb) r g b = mathSqrt (real_of_int (dr * dr + dg * dg + db * db))"
    by (simp only: colorDist_def prod.case Let_def sr sg sb m [OF s(1)] m [OF s(2)] m [OF s(3)]
        a1 a2)
  also have "real_of_int (dr * dr + dg * dg + db * db)
      = (real_of_int dr)\<^sup>2 + (real_of_int dg)\<^sup>2 + (real_of_int db)\<^sup>2"
    by (simp add: power2_eq_square)
  finally show ?thesis by (simp only: er eg eb)
qed

lemma uint_toUint8Clamped: "uint (toUint8Clamped v) = max 0 (min 255 v)"
proof -
  have "0 \<le> max 0 (min 255 v)" "max 0 (min 255 v) < 2 ^ 8" by simp_all
  then have "take_bit 8 (max 0 (min 255 v)) = max 0 (min 255 v)"
    by (simp only: take_bit_int_eq_self)
  then show ?thesis by (simp add: toUint8Clamped_def uint_word_of_int_eq)
qed

lemma toUint8Clamped_0: "toUint8Clamped 0 = 0"
  by (simp add: toUint8Clamped_def)

text \<open>
  In the smoothing arm, for a distance, a threshold and a range that are doubles: the
  range is positive, the distance lies in \<open>[threshold, threshold + range]\<close>, and the value
  floored lies in \<open>[0, 255]\<close>, so the clamped store changes nothing.
\<close>

lemma smoothEdge_bounds:
  assumes "branchOf d t s = SmoothEdge" and "toDouble d = d" and "toDouble t = t"
  shows "0 < s" and "t \<le> d" and "d \<le> t + s"
proof -
  from assms(1) have nlt: "\<not> d < t" and lt: "d < toDouble (t + s)"
    by (auto simp: branchOf_def numAdd_def split: if_splits)
  from nlt show "t \<le> d" by simp
  show "0 < s"
  proof (rule ccontr)
    assume "\<not> 0 < s"
    then have "t + s \<le> t" by simp
    then have "toDouble (t + s) \<le> toDouble t" by (rule toDouble_mono)
    with assms(3) lt nlt show False by simp
  qed
  show "d \<le> t + s"
  proof (rule ccontr)
    assume "\<not> d \<le> t + s"
    then have "t + s \<le> d" by simp
    then have "toDouble (t + s) \<le> toDouble d" by (rule toDouble_mono)
    with assms(2) lt show False by simp
  qed
qed

lemma smoothEdge_floor_range:
  assumes "branchOf d t s = SmoothEdge" and "toDouble d = d" and "toDouble t = t"
    and "toDouble s = s"
  shows "0 \<le> \<lfloor>numMul (numDiv (numSub d t) s) 255\<rfloor>
       \<and> \<lfloor>numMul (numDiv (numSub d t) s) 255\<rfloor> \<le> 255"
proof -
  note b = smoothEdge_bounds [OF assms(1-3)]
  define x1 where "x1 = numSub d t"
  define x2 where "x2 = numDiv x1 s"
  define x3 where "x3 = numMul x2 255"
  have one: "toDouble 1 = 1" using toDouble_of_int [of 1] by simp
  have big: "toDouble 255 = 255" using toDouble_of_int [of 255] by simp
  from b(2) have "0 \<le> d - t" by simp
  then have x1_lo: "0 \<le> x1" unfolding x1_def numSub_def by (rule toDouble_nonneg)
  from b(3) have "d - t \<le> s" by simp
  then have "toDouble (d - t) \<le> toDouble s" by (rule toDouble_mono)
  then have x1_hi: "x1 \<le> s" by (simp add: x1_def numSub_def assms(4))
  from x1_lo b(1) have "0 \<le> x1 / s" by simp
  then have x2_lo: "0 \<le> x2" unfolding x2_def numDiv_def by (rule toDouble_nonneg)
  from x1_hi b(1) have "x1 / s \<le> 1" by simp
  then have "toDouble (x1 / s) \<le> toDouble 1" by (rule toDouble_mono)
  then have x2_hi: "x2 \<le> 1" by (simp add: x2_def numDiv_def one)
  from x2_lo have "0 \<le> x2 * 255" by simp
  then have x3_lo: "0 \<le> x3" unfolding x3_def numMul_def by (rule toDouble_nonneg)
  from x2_hi have "x2 * 255 \<le> 255" by simp
  then have "toDouble (x2 * 255) \<le> toDouble 255" by (rule toDouble_mono)
  then have x3_hi: "x3 \<le> 255" by (simp add: x3_def numMul_def big)
  from x3_lo have "0 \<le> \<lfloor>x3\<rfloor>" by simp
  moreover from x3_hi have "\<lfloor>x3\<rfloor> \<le> \<lfloor>255::real\<rfloor>" by (rule floor_mono)
  then have "\<lfloor>x3\<rfloor> \<le> 255" by simp
  ultimately show ?thesis unfolding x3_def x2_def x1_def by simp
qed

lemma uint_alphaAfter_smooth:
  assumes "branchOf d t s = SmoothEdge" and "toDouble d = d" and "toDouble t = t"
    and "toDouble s = s"
  shows "uint (alphaAfter d t s a) = \<lfloor>numMul (numDiv (numSub d t) s) 255\<rfloor>"
proof -
  from smoothEdge_floor_range [OF assms]
  have "max 0 (min 255 \<lfloor>numMul (numDiv (numSub d t) s) 255\<rfloor>)
      = \<lfloor>numMul (numDiv (numSub d t) s) 255\<rfloor>" by simp
  moreover have "alphaAfter d t s a = toUint8Clamped \<lfloor>numMul (numDiv (numSub d t) s) 255\<rfloor>"
    using assms(1) by (simp only: alphaAfter_def Let_def Branch.case)
  ultimately show ?thesis by (simp only: uint_toUint8Clamped)
qed

lemma length_chromaLoop: "length (chromaLoop key t s xs) = length xs"
  by (induction key t s xs rule: chromaLoop.induct) simp_all

lemma chromaLoop_nth:
  assumes "4 * k + 3 < length xs"
  shows "chromaLoop key t s xs ! (4 * k) = xs ! (4 * k) \<and>
         chromaLoop key t s xs ! (4 * k + 1) = xs ! (4 * k + 1) \<and>
         chromaLoop key t s xs ! (4 * k + 2) = xs ! (4 * k + 2) \<and>
         chromaLoop key t s xs ! (4 * k + 3) =
           alphaAfter (colorDist key (xs ! (4 * k)) (xs ! (4 * k + 1)) (xs ! (4 * k + 2))) t s
             (xs ! (4 * k + 3))"
  using assms
proof (induction key t s xs arbitrary: k rule: chromaLoop.induct)
  case (1 key t s r g b a rest)
  show ?case
  proof (cases k)
    case 0
    then show ?thesis by simp
  next
    case (Suc j)
    with "1.prems" have "4 * j + 3 < length rest" by simp
    from "1.IH" [OF this] Suc show ?thesis by (simp add: numeral_eq_Suc)
  qed
qed simp_all

text \<open>
  Claim C3, amended. With chroma keying enabled, for pixel \<open>k\<close> of the data array with
  bytes \<open>(r, g, b, a)\<close> and key colour \<open>(kr, kg, kb)\<close>: the red, green and blue bytes are
  kept. With \<open>d\<close> the double nearest to the Euclidean distance of the two colours,
  \<open>threshold\<close> the double product \<open>similarity * 442\<close> and \<open>smoothRange\<close> the double
  product \<open>smoothness * 100\<close>, the alpha byte is \<open>0\<close> if \<open>d < threshold\<close>; it is
  \<open>floor (((d - threshold) / smoothRange) * 255)\<close>, the difference, the quotient and
  the product each rounded to a double in this order, if \<open>d\<close> is below the double sum
  \<open>threshold + smoothRange\<close>; and it is the input's alpha otherwise.
\<close>

theorem chroma_key_pixel_rule:
  assumes "enabled settings"
    and "4 * k + 3 < length (draw img w h)"
  shows "let data = draw img w h;
             out = processFrame draw img settings w h;
             r = data ! (4 * k); g = data ! (4 * k + 1); b = data ! (4 * k + 2);
             a = data ! (4 * k + 3);
             (kr, kg, kb) = hexToRgb (color settings);
             d = mathSqrt ((real (unat r) - real kr)\<^sup>2 + (real (unat g) - real kg)\<^sup>2
                           + (real (unat b) - real kb)\<^sup>2);
             threshold = numMul (similarity settings) 442;
             smoothRange = numMul (smoothness settings) 100
         in length out = length data \<and>
            out ! (4 * k) = r \<and> out ! (4 * k + 1) = g \<and> out ! (4 * k + 2) = b \<and>
            (if d < threshold then out ! (4 * k + 3) = 0
             else if d < numAdd threshold smoothRange
               then uint (out ! (4 * k + 3))
                      = \<lfloor>numMul (numDiv (numSub d threshold) smoothRange) 255\<rfloor>
             else out ! (4 * k + 3) = a)"
proof -
  let ?data = "draw img w h"
  let ?out = "processFrame draw img settings w h"
  let ?t = "numMul (similarity settings) 442"
  let ?s = "numMul (smoothness settings) 100"
  obtain kr kg kb where key: "hexToRgb (color settings) = (kr, kg, kb)"
    by (cases "hexToRgb (color settings)")
  let ?d = "mathSqrt ((real (unat (?data ! (4 * k))) - real kr)\<^sup>2
                + (real (unat (?data ! (4 * k + 1))) - real kg)\<^sup>2
                + (real (unat (?data ! (4 * k + 2))) - real kb)\<^sup>2)"
  have d: "colorDist (kr, kg, kb) (?data ! (4 * k)) (?data ! (4 * k + 1)) (?data ! (4 * k + 2)) = ?d"
    by (rule colorDist_exact) (rule hexToRgb_channels [OF key])+
  have dd: "toDouble ?d = ?d" by (rule mathSqrt_double)
  have td: "toDouble ?t = ?t" and sd: "toDouble ?s = ?s" by (rule numMul_double)+
  have out: "?out = chromaLoop (kr, kg, kb) ?t ?s ?data"
    using assms(1) by (simp add: processFrame_def Let_def key)
  have len: "length ?out = length ?data"
    by (simp only: out length_chromaLoop)
  note nth = chromaLoop_nth [OF assms(2), of "(kr, kg, kb)" ?t ?s]
  from nth have n0: "?out ! (4 * k) = ?data ! (4 * k)"
    and n1: "?out ! (4 * k + 1) = ?data ! (4 * k + 1)"
    and n2: "?out ! (4 * k + 2) = ?data ! (4 * k + 2)"
    and n3: "?out ! (4 * k + 3) = alphaAfter ?d ?t ?s (?data ! (4 * k + 3))"
    by (simp_all only: out d)
  have alpha: "if ?d < ?t then ?out ! (4 * k + 3) = 0
     else if ?d < numAdd ?t ?s
       then uint (?out ! (4 * k + 3)) = \<lfloor>numMul (numDiv (numSub ?d ?t) ?s) 255\<rfloor>
     else ?out ! (4 * k + 3) = ?data ! (4 * k + 3)"
  proof (cases "branchOf ?d ?t ?s")
    case FullTransparency
    then have "?d < ?t" by (auto simp: branchOf_def split: if_splits)
    moreover from FullTransparency have "alphaAfter ?d ?t ?s (?data ! (4 * k + 3)) = 0"
      by (simp only: alphaAfter_def Branch.case toUint8Clamped_0)
    ultimately show ?thesis by (simp only: n3 if_True)
  next
    case SmoothEdge
    then have "\<not> ?d < ?t" "?d < numAdd ?t ?s"
      by (auto simp: branchOf_def split: if_splits)
    with uint_alphaAfter_smooth [OF SmoothEdge dd td sd, of "?data ! (4 * k + 3)"]
    show ?thesis by (simp only: n3 if_True if_False)
  next
    case Untouched
    then have "\<not> ?d < ?t" "\<not> ?d < numAdd ?t ?s"
      by (auto simp: branchOf_def split: if_splits)
    moreover from Untouched have "alphaAfter ?d ?t ?s (?data ! (4 * k + 3)) = ?data ! (4 * k + 3)"
      by (simp only: alphaAfter_def Branch.case)
    ultimately show ?thesis by (simp only: n3 if_False)
  qed
  show ?thesis
    unfolding Let_def key prod.case
    by (intro conjI len n0 n1 n2 alpha)
qed

text \<open>
  Claim C7. When \<open>smoothRange\<close>, the double product \<open>smoothness * 100\<close>, is \<open>0\<close>, no pixel
  takes the smoothing arm (the only place of the division), and the alpha written is
  \<open>0\<close> below the threshold and the input's alpha from the threshold on.
\<close>

theorem zero_smoothRange_hard_cutoff:
  assumes "enabled settings"
    and "numMul (smoothness settings) 100 = 0"
    and "4 * k + 3 < length (draw img w h)"
  shows "let data = draw img w h;
             out = processFrame draw img settings w h;
             d = colorDist (hexToRgb (color settings))
                   (data ! (4 * k)) (data ! (4 * k + 1)) (data ! (4 * k + 2));
             similarityThreshold = numMul (similarity settings) 442;
             smoothRange = numMul (smoothness settings) 100
         in branchOf d similarityThreshold smoothRange \<noteq> SmoothEdge \<and>
            out ! (4 * k + 3) = (if d < similarityThreshold then 0 else data ! (4 * k + 3))"
proof -
  let ?data = "draw img w h"
  let ?key = "hexToRgb (color settings)"
  let ?t = "numMul (similarity settings) 442"
  let ?d = "colorDist ?key (?data ! (4 * k)) (?data ! (4 * k + 1)) (?data ! (4 * k + 2))"
  have out: "processFrame draw img settings w h = chromaLoop ?key ?t 0 ?data"
    using assms(1,2) by (simp add: processFrame_def Let_def)
  have t0: "numAdd ?t 0 = ?t"
    by (simp add: numAdd_def numMul_double)
  have b: "branchOf ?d ?t 0 \<noteq> SmoothEdge"
    by (simp add: branchOf_def t0)
  have a: "alphaAfter ?d ?t 0 (?data ! (4 * k + 3))
             = (if ?d < ?t then 0 else ?data ! (4 * k + 3))"
    by (simp add: alphaAfter_def branchOf_def t0 toUint8Clamped_0)
  from chromaLoop_nth [OF assms(3), of ?key ?t 0]
  have "chromaLoop ?key ?t 0 ?data ! (4 * k + 3) = alphaAfter ?d ?t 0 (?data ! (4 * k + 3))"
    by simp
  with a b show ?thesis
    unfolding Let_def assms(2) out by simp
qed

text \<open>
  Claim C8. For fixed settings with \<open>smoothRange > 0\<close> and two pixels whose distances
  \<open>d1 \<le> d2\<close> from the key colour both fall into the smoothing arm, the alpha written
  for the first is at most the alpha written for the second.
\<close>

theorem alpha_ramp_monotone:
  assumes "0 < numMul (smoothness settings) 100"
    and "d1 = colorDist (hexToRgb (color settings)) r1 g1 b1"
    and "d2 = colorDist (hexToRgb (color settings)) r2 g2 b2"
    and "branchOf d1 (numMul (similarity settings) 442) (numMul (smoothness settings) 100)
           = SmoothEdge"
    and "branchOf d2 (numMul (similarity settings) 442) (numMul (smoothness settings) 100)
           = SmoothEdge"
    and "d1 \<le> d2"
  shows "alphaAfter d1 (numMul (similarity settings) 442) (numMul (smoothness settings) 100) a1
       \<le> alphaAfter d2 (numMul (similarity settings) 442) (numMul (smoothness settings) 100) a2"
proof -
  let ?t = "numMul (similarity settings) 442"
  let ?s = "numMul (smoothness settings) 100"
  let ?v = "\<lambda>d. \<lfloor>numMul (numDiv (numSub d ?t) ?s) 255\<rfloor>"
  from assms(6) have "d1 - ?t \<le> d2 - ?t" by simp
  then have "numSub d1 ?t \<le> numSub d2 ?t"
    unfolding numSub_def by (rule toDouble_mono)
  moreover from assms(1) have "0 \<le> ?s" by (rule less_imp_le)
  ultimately have "numSub d1 ?t / ?s \<le> numSub d2 ?t / ?s" by (rule divide_right_mono)
  then have "numDiv (numSub d1 ?t) ?s \<le> numDiv (numSub d2 ?t) ?s"
    unfolding numDiv_def by (rule toDouble_mono)
  then have "numDiv (numSub d1 ?t) ?s * 255 \<le> numDiv (numSub d2 ?t) ?s * 255" by simp
  then have "numMul (numDiv (numSub d1 ?t) ?s) 255 \<le> numMul (numDiv (numSub d2 ?t) ?s) 255"
    unfolding numMul_def by (rule toDouble_mono)
  then have v: "?v d1 \<le> ?v d2" by (rule floor_mono)
  have a1: "alphaAfter d1 ?t ?s a1 = toUint8Clamped (?v d1)"
    using assms(4) by (simp only: alphaAfter_def Let_def Branch.case)
  have a2: "alphaAfter d2 ?t ?s a2 = toUint8Clamped (?v d2)"
    using assms(5) by (simp only: alphaAfter_def Let_def Branch.case)
  from v have "max 0 (min 255 (?v d1)) \<le> max 0 (min 255 (?v d2))" by linarith
  then have "uint (alphaAfter d1 ?t ?s a1) \<le> uint (alphaAfter d2 ?t ?s a2)"
    by (simp only: a1 a2 uint_toUint8Clamped)
  then show ?thesis by (simp only: word_le_def)
qed

subsection \<open>Chroma key at concrete inputs\<close>

lemma powi_neg_numeral: "(2::real) powi (- numeral n) = 1 / 2 ^ numeral n"
  by (simp add: power_int_minus field_simps)

lemma double_0_1: "toDouble (1 / 10) = 3602879701896397 / 36028797018963968"
  by (subst toDouble_eval [where e = "- 4"])
     (simp_all add: powi_neg_numeral roundTiesToEven_def Let_def)

lemma double_0_69: "toDouble (69 / 100) = 1553741871442821 / 2251799813685248"
  by (subst toDouble_eval [where e = "- 1"])
     (simp_all add: powi_neg_numeral roundTiesToEven_def Let_def)

lemma double_0_15: "toDouble (3 / 20) = 5404319552844595 / 36028797018963968"
  by (subst toDouble_eval [where e = "- 3"])
     (simp_all add: powi_neg_numeral roundTiesToEven_def Let_def)

lemma slider_threshold: "numMul (3602879701896397 / 36028797018963968) 442 = 3110298492652749 / 70368744177664"
  unfolding numMul_def by (subst toDouble_eval [where e = 5])
     (simp_all add: powi_neg_numeral roundTiesToEven_def Let_def)

lemma slider_smoothRange: "numMul (1553741871442821 / 2251799813685248) 100 = 69"
  unfolding numMul_def by (subst toDouble_eval [where e = 6])
     (simp_all add: powi_neg_numeral roundTiesToEven_def Let_def)

lemma slider_band_end: "numAdd (3110298492652749 / 70368744177664) 69 = 7965741840911565 / 70368744177664"
  unfolding numAdd_def by (subst toDouble_eval [where e = 6])
     (simp_all add: powi_neg_numeral roundTiesToEven_def Let_def)

lemma slider_difference: "numSub 104 (3110298492652749 / 70368744177664) = 4208050901824307 / 70368744177664"
  unfolding numSub_def by (subst toDouble_eval [where e = 5])
     (simp_all add: powi_neg_numeral roundTiesToEven_def Let_def)

lemma slider_quotient: "numDiv (4208050901824307 / 70368744177664) 69 = 7806239354108859 / 9007199254740992"
  unfolding numDiv_def by (subst toDouble_eval [where e = "- 1"])
     (simp_all add: powi_neg_numeral roundTiesToEven_def Let_def)

lemma slider_product: "numMul (7806239354108859 / 9007199254740992) 255 = 7775746231631871 / 35184372088832"
  unfolding numMul_def by (subst toDouble_eval [where e = 7])
     (simp_all add: powi_neg_numeral roundTiesToEven_def Let_def)

lemma slider_product_first: "numMul 255 (4208050901824307 / 70368744177664) = 15249"
  unfolding numMul_def by (subst toDouble_eval [where e = 13])
     (simp_all add: powi_neg_numeral roundTiesToEven_def Let_def)

lemma slider_quotient_last: "numDiv 15249 69 = 221"
  unfolding numDiv_def by (subst toDouble_eval [where e = 7])
     (simp_all add: powi_neg_numeral roundTiesToEven_def Let_def)

lemma example_threshold: "numMul (1 / 4) 442 = 221 / 2"
  unfolding numMul_def by (subst toDouble_eval [where e = 6])
     (simp_all add: powi_neg_numeral roundTiesToEven_def Let_def)

lemma example_smoothRange: "numMul (3602879701896397 / 36028797018963968) 100 = 10"
  unfolding numMul_def by (subst toDouble_eval [where e = 3])
     (simp_all add: powi_neg_numeral roundTiesToEven_def Let_def)

lemma example_band_end: "numAdd (221 / 2) 10 = 241 / 2"
  unfolding numAdd_def by (subst toDouble_eval [where e = 6])
     (simp_all add: powi_neg_numeral roundTiesToEven_def Let_def)

lemma example_difference: "numSub 115 (221 / 2) = 9 / 2"
  unfolding numSub_def by (subst toDouble_eval [where e = 2])
     (simp_all add: powi_neg_numeral roundTiesToEven_def Let_def)

lemma example_quotient: "numDiv (9 / 2) 10 = 8106479329266893 / 18014398509481984"
  unfolding numDiv_def by (subst toDouble_eval [where e = "- 2"])
     (simp_all add: powi_neg_numeral roundTiesToEven_def Let_def)

lemma example_product: "numMul (8106479329266893 / 18014398509481984) 255 = 459 / 4"
  unfolding numMul_def by (subst toDouble_eval [where e = 6])
     (simp_all add: powi_neg_numeral roundTiesToEven_def Let_def)

lemma scaled_height: "numMul 270 (5404319552844595 / 36028797018963968) = 81 / 2"
  unfolding numMul_def by (subst toDouble_eval [where e = 5])
     (simp_all add: powi_neg_numeral roundTiesToEven_def Let_def)

lemma scaled_width: "numMul 480 (5404319552844595 / 36028797018963968) = 72"
  unfolding numMul_def by (subst toDouble_eval [where e = 6])
     (simp_all add: powi_neg_numeral roundTiesToEven_def Let_def)

lemma hexToRgb_green: "hexToRgb ''#00ff00'' = (0, 255, 0)"
  by (simp add: hexToRgb_def regexExec_def isHexDigit_def parseInt16_def hexDigitValue_def)

text \<open>Along the red axis from pure green the distance is the red byte itself.\<close>

lemma colorDist_red_axis: "colorDist (0, 255, 0) r 255 0 = real (unat r)"
proof -
  have "uint r < 256" using uint_lt2p [of r] by simp
  then have "\<bar>uint r\<bar> \<le> 200000" by simp
  then have "toDouble (real_of_int (uint r)) = real_of_int (uint r)"
    by (rule toDouble_small_int)
  moreover have "colorDist (0, 255, 0) r 255 0 = mathSqrt ((real (unat r))\<^sup>2)"
    using colorDist_exact [of 0 255 0 r 255 0] by simp
  moreover have "(0::real) \<le> unsigned r" by (metis of_nat_0_le_iff of_nat_unat)
  ultimately show ?thesis by (simp add: mathSqrt_def)
qed

text \<open>
  Claim C3, as stated, fails. At the slider positions \<open>0.1\<close> and \<open>0.69\<close> and the pixel
  \<open>(104, 255, 0)\<close>, at distance \<open>104\<close> from green and inside the band, the source writes
  alpha \<open>220\<close>. The formula of the claim gives \<open>221\<close>: in exact arithmetic on the decimal
  settings, in exact arithmetic on the doubles of the settings, and in double arithmetic
  in the order in which the claim writes it.
\<close>

theorem chroma_ramp_counterexample:
  "uint (processFrame copyingDraw onePixel sliderSettings 1 1 ! 3) = 220 \<and>
   colorDist (hexToRgb (color sliderSettings)) 104 255 0 = 104 \<and>
   branchOf 104 (numMul (similarity sliderSettings) 442) (numMul (smoothness sliderSettings) 100)
     = SmoothEdge \<and>
   \<lfloor>255 * (104 - (1 / 10) * 442) / ((69 / 100) * 100 :: real)\<rfloor> = 221 \<and>
   \<lfloor>255 * (104 - similarity sliderSettings * 442) / (smoothness sliderSettings * 100)\<rfloor> = 221 \<and>
   \<lfloor>numDiv (numMul 255 (numSub 104 (numMul (similarity sliderSettings) 442)))
           (numMul (smoothness sliderSettings) 100)\<rfloor> = 221"
proof -
  have s: "enabled sliderSettings" "color sliderSettings = ''#00ff00''"
    "similarity sliderSettings = 3602879701896397 / 36028797018963968"
    "smoothness sliderSettings = 6214967485771284 / 9007199254740992"
    by (simp_all add: sliderSettings_def double_0_1 double_0_69)
  have d: "colorDist (0, 255, 0) 104 255 0 = 104"
    by (simp add: colorDist_red_axis)
  have b: "branchOf 104 (numMul (similarity sliderSettings) 442)
      (numMul (smoothness sliderSettings) 100) = SmoothEdge"
    by (simp add: s branchOf_def slider_threshold slider_smoothRange slider_band_end)
  have a: "alphaAfter 104 (numMul (similarity sliderSettings) 442)
      (numMul (smoothness sliderSettings) 100) 255 = 220"
    using b
    by (simp add: alphaAfter_def s slider_threshold slider_smoothRange slider_difference
        slider_quotient slider_product toUint8Clamped_def)
  have p: "processFrame copyingDraw onePixel sliderSettings 1 1 ! 3 = 220"
    using a
    by (simp add: processFrame_def copyingDraw_def onePixel_def Let_def s(1,2)
        hexToRgb_green d)
  have c: "\<lfloor>numDiv (numMul 255 (numSub 104 (numMul (similarity sliderSettings) 442)))
           (numMul (smoothness sliderSettings) 100)\<rfloor> = 221"
    by (simp add: s slider_threshold slider_smoothRange slider_difference
        slider_product_first slider_quotient_last)
  have e1: "\<lfloor>255 * (104 - (1 / 10) * 442) / ((69 / 100) * 100 :: real)\<rfloor> = 221" by simp
  have e2: "\<lfloor>255 * (104 - similarity sliderSettings * 442)
      / (smoothness sliderSettings * 100)\<rfloor> = 221"
    by (simp add: s)
  from p have "uint (processFrame copyingDraw onePixel sliderSettings 1 1 ! 3) = 220" by simp
  with d b c e1 e2 show ?thesis by (simp only: s(2) hexToRgb_green simp_thms)
qed

lemma mathSqrt_13225: "mathSqrt 13225 = 115"
proof -
  have "sqrt 13225 = 115" by (rule real_sqrt_unique) simp_all
  moreover have "toDouble 115 = 115" using toDouble_of_int [of 115] by simp
  ultimately show ?thesis by (simp add: mathSqrt_def)
qed

lemma example_settings:
  "enabled exampleSettings" "color exampleSettings = ''#00ff00''"
  "similarity exampleSettings = 1 / 4"
  "smoothness exampleSettings = 3602879701896397 / 36028797018963968"
  by (simp_all add: exampleSettings_def double_0_1)

lemma example_data:
  "copyingDraw exampleImage 3 1 = [0, 255, 0, 255,  115, 255, 0, 255,  128, 128, 128, 255]"
  by (simp add: copyingDraw_def exampleImage_def)

text \<open>
  The rule at the second pixel \<open>(115, 255, 0, 255)\<close> of the example image: distance
  \<open>115\<close> from green, threshold \<open>110.5\<close>, smoothing range \<open>10\<close>, alpha \<open>114\<close>.
\<close>

theorem chroma_key_pixel_rule_witness:
  "enabled exampleSettings \<and>
   4 * 1 + 3 < length (copyingDraw exampleImage 3 1) \<and>
   processFrame copyingDraw exampleImage exampleSettings 3 1 ! 4 = 115 \<and>
   uint (processFrame copyingDraw exampleImage exampleSettings 3 1 ! 7) = 114"
proof -
  have e: "enabled exampleSettings" by (rule example_settings)
  have l: "4 * 1 + 3 < length (copyingDraw exampleImage 3 1)"
    by (simp add: example_data)
  from chroma_key_pixel_rule [where draw = copyingDraw and img = exampleImage and w = 3
      and h = 1 and k = 1, OF e l] e l show ?thesis
    by (simp add: Let_def example_data example_settings hexToRgb_green mathSqrt_13225
        example_threshold example_smoothRange example_band_end example_difference
        example_quotient example_product)
qed

text \<open>
  With smoothness \<open>0\<close> the pixel at distance \<open>115\<close> (above the threshold \<open>110.5\<close>) keeps
  its alpha \<open>255\<close>, and the pixel of the key colour itself gets alpha \<open>0\<close>.
\<close>

theorem zero_smoothRange_hard_cutoff_witness:
  "enabled (exampleSettings\<lparr>smoothness := 0\<rparr>) \<and>
   numMul (smoothness (exampleSettings\<lparr>smoothness := 0\<rparr>)) 100 = 0 \<and>
   branchOf (colorDist (0, 255, 0) 115 255 0) (221 / 2) 0 \<noteq> SmoothEdge \<and>
   processFrame copyingDraw exampleImage (exampleSettings\<lparr>smoothness := 0\<rparr>) 3 1 ! 7 = 255 \<and>
   processFrame copyingDraw exampleImage (exampleSettings\<lparr>smoothness := 0\<rparr>) 3 1 ! 3 = 0"
proof -
  let ?S = "exampleSettings\<lparr>smoothness := 0\<rparr>"
  have e: "enabled ?S" by (simp add: example_settings)
  have z: "numMul (smoothness ?S) 100 = 0" by (simp add: numMul_def toDouble_zero)
  have l1: "4 * 1 + 3 < length (copyingDraw exampleImage 3 1)"
    and l0: "4 * 0 + 3 < length (copyingDraw exampleImage 3 1)"
    by (simp_all add: example_data)
  have s: "color ?S = ''#00ff00''" "similarity ?S = 1 / 4"
    by (simp_all add: example_settings)
  from zero_smoothRange_hard_cutoff [where draw = copyingDraw and img = exampleImage and w = 3
      and h = 1 and k = 1, OF e z l1]
    zero_smoothRange_hard_cutoff [where draw = copyingDraw and img = exampleImage and w = 3
      and h = 1 and k = 0, OF e z l0] e z
  show ?thesis
    by (simp add: Let_def example_data s hexToRgb_green colorDist_red_axis example_threshold)
qed

text \<open>
  Two pixels at distances \<open>112\<close> and \<open>118\<close> from green, both in the band
  \<open>[110.5, 120.5)\<close>.
\<close>

theorem alpha_ramp_monotone_witness:
  "0 < numMul (smoothness exampleSettings) 100 \<and>
   branchOf (colorDist (hexToRgb (color exampleSettings)) 112 255 0)
     (numMul (similarity exampleSettings) 442) (numMul (smoothness exampleSettings) 100)
     = SmoothEdge \<and>
   branchOf (colorDist (hexToRgb (color exampleSettings)) 118 255 0)
     (numMul (similarity exampleSettings) 442) (numMul (smoothness exampleSettings) 100)
     = SmoothEdge \<and>
   colorDist (hexToRgb (color exampleSettings)) 112 255 0
     \<le> colorDist (hexToRgb (color exampleSettings)) 118 255 0 \<and>
   alphaAfter (colorDist (hexToRgb (color exampleSettings)) 112 255 0)
       (numMul (similarity exampleSettings) 442) (numMul (smoothness exampleSettings) 100) 255
     \<le> alphaAfter (colorDist (hexToRgb (color exampleSettings)) 118 255 0)
       (numMul (similarity exampleSettings) 442) (numMul (smoothness exampleSettings) 100) 255"
proof -
  note s = example_settings
  have p: "0 < numMul (smoothness exampleSettings) 100"
    by (simp add: s example_smoothRange)
  have b1: "branchOf (colorDist (hexToRgb (color exampleSettings)) 112 255 0)
     (numMul (similarity exampleSettings) 442) (numMul (smoothness exampleSettings) 100)
     = SmoothEdge"
    by (simp add: s hexToRgb_green colorDist_red_axis branchOf_def example_threshold
        example_smoothRange example_band_end)
  have b2: "branchOf (colorDist (hexToRgb (color exampleSettings)) 118 255 0)
     (numMul (similarity exampleSettings) 442) (numMul (smoothness exampleSettings) 100)
     = SmoothEdge"
    by (simp add: s hexToRgb_green colorDist_red_axis branchOf_def example_threshold
        example_smoothRange example_band_end)
  have le: "colorDist (hexToRgb (color exampleSettings)) 112 255 0
     \<le> colorDist (hexToRgb (color exampleSettings)) 118 255 0"
    by (simp add: s hexToRgb_green colorDist_red_axis)
  from alpha_ramp_monotone [OF p refl refl b1 b2 le, of 255 255] p b1 b2 le
  show ?thesis by (intro conjI)
qed

subsection \<open>Frame extraction\<close>

lemma interval_5fps: "numDiv 1 5 = 3602879701896397 / 18014398509481984"
  unfolding numDiv_def by (subst toDouble_eval [where e = "- 3"])
     (simp_all add: powi_neg_numeral roundTiesToEven_def Let_def)

lemma cursor_step_1: "numAdd 0 (3602879701896397 / 18014398509481984) = 3602879701896397 / 18014398509481984"
  unfolding numAdd_def by (subst toDouble_eval [where e = "- 3"])
     (simp_all add: powi_neg_numeral roundTiesToEven_def Let_def)

lemma cursor_step_2: "numAdd (3602879701896397 / 18014398509481984) (3602879701896397 / 18014398509481984) = 3602879701896397 / 9007199254740992"
  unfolding numAdd_def by (subst toDouble_eval [where e = "- 2"])
     (simp_all add: powi_neg_numeral roundTiesToEven_def Let_def)

lemma cursor_step_3: "numAdd (3602879701896397 / 9007199254740992) (3602879701896397 / 18014398509481984) = 1351079888211149 / 2251799813685248"
  unfolding numAdd_def by (subst toDouble_eval [where e = "- 1"])
     (simp_all add: powi_neg_numeral roundTiesToEven_def Let_def)

lemma cursor_step_4: "numAdd (1351079888211149 / 2251799813685248) (3602879701896397 / 18014398509481984) = 3602879701896397 / 4503599627370496"
  unfolding numAdd_def by (subst toDouble_eval [where e = "- 1"])
     (simp_all add: powi_neg_numeral roundTiesToEven_def Let_def)

lemma cursor_step_5: "numAdd (3602879701896397 / 4503599627370496) (3602879701896397 / 18014398509481984) = 1"
  unfolding numAdd_def by (subst toDouble_eval [where e = 0])
     (simp_all add: powi_neg_numeral roundTiesToEven_def Let_def)

lemma cursor_step_6: "numAdd 1 (3602879701896397 / 18014398509481984) = 5404319552844595 / 4503599627370496"
  unfolding numAdd_def by (subst toDouble_eval [where e = 0])
     (simp_all add: powi_neg_numeral roundTiesToEven_def Let_def)

lemma cursor_step_7: "numAdd (5404319552844595 / 4503599627370496) (3602879701896397 / 18014398509481984) = 3152519739159347 / 2251799813685248"
  unfolding numAdd_def by (subst toDouble_eval [where e = 0])
     (simp_all add: powi_neg_numeral roundTiesToEven_def Let_def)

lemma cursor_step_8: "numAdd (3152519739159347 / 2251799813685248) (3602879701896397 / 18014398509481984) = 7205759403792793 / 4503599627370496"
  unfolding numAdd_def by (subst toDouble_eval [where e = 0])
     (simp_all add: powi_neg_numeral roundTiesToEven_def Let_def)

lemma cursor_step_9: "numAdd (7205759403792793 / 4503599627370496) (3602879701896397 / 18014398509481984) = 2026619832316723 / 1125899906842624"
  unfolding numAdd_def by (subst toDouble_eval [where e = 0])
     (simp_all add: powi_neg_numeral roundTiesToEven_def Let_def)

lemma cursor_step_10: "numAdd (2026619832316723 / 1125899906842624) (3602879701896397 / 18014398509481984) = 9007199254740991 / 4503599627370496"
  unfolding numAdd_def by (subst toDouble_eval [where e = 0])
     (simp_all add: powi_neg_numeral roundTiesToEven_def Let_def)

lemma cursor_step_11: "numAdd (9007199254740991 / 4503599627370496) (3602879701896397 / 18014398509481984) = 4953959590107545 / 2251799813685248"
  unfolding numAdd_def by (subst toDouble_eval [where e = 1])
     (simp_all add: powi_neg_numeral roundTiesToEven_def Let_def)

lemma cursor_step_12: "numAdd (4953959590107545 / 2251799813685248) (3602879701896397 / 18014398509481984) = 5404319552844595 / 2251799813685248"
  unfolding numAdd_def by (subst toDouble_eval [where e = 1])
     (simp_all add: powi_neg_numeral roundTiesToEven_def Let_def)

lemma cursor_step_13: "numAdd (5404319552844595 / 2251799813685248) (3602879701896397 / 18014398509481984) = 5854679515581645 / 2251799813685248"
  unfolding numAdd_def by (subst toDouble_eval [where e = 1])
     (simp_all add: powi_neg_numeral roundTiesToEven_def Let_def)

lemma cursor_step_14: "numAdd (5854679515581645 / 2251799813685248) (3602879701896397 / 18014398509481984) = 6305039478318695 / 2251799813685248"
  unfolding numAdd_def by (subst toDouble_eval [where e = 1])
     (simp_all add: powi_neg_numeral roundTiesToEven_def Let_def)

lemma cursor_step_15: "numAdd (6305039478318695 / 2251799813685248) (3602879701896397 / 18014398509481984) = 6755399441055745 / 2251799813685248"
  unfolding numAdd_def by (subst toDouble_eval [where e = 1])
     (simp_all add: powi_neg_numeral roundTiesToEven_def Let_def)

lemma toDouble_quarters:
  assumes "n \<le> 201"
  shows "toDouble (real n / 4) = real n / 4"
proof -
  from assms have "\<bar>int n\<bar> < 2 ^ 53" by simp
  from toDouble_representable [OF this, of "- 2"] show ?thesis
    by (simp add: powi_neg_numeral)
qed

text \<open>
  With an interval of at most a quarter of a second and an end time of 50 seconds or
  more, the cursor after \<open>k\<close> frames is at most \<open>k / 4\<close>, the loop does not end before the
  cap, and it leaves with 201 frames and the alert.
\<close>

lemma extractLoop_reaches_cap:
  assumes "interval \<le> 1 / 4" and "cursor \<le> real (length extracted) / 4"
    and "length extracted \<le> 200" and "50 \<le> endTime"
  shows "extractLoop uuid capture endTime interval cursor extracted = (xs, alerted) \<Longrightarrow>
         length xs = 201 \<and> alerted"
  using assms
proof (induction uuid capture endTime interval cursor extracted arbitrary: xs alerted
    rule: extractLoop.induct)
  case (1 uuid capture endTime interval cursor extracted)
  let ?f = "newFrame uuid capture (length extracted) cursor"
  from "1.prems"(4) have "real (length extracted) / 4 \<le> 50" by simp
  with "1.prems"(3,5) have le: "cursor \<le> endTime" by linarith
  show ?case
  proof (cases "length extracted = 200")
    case True
    with le "1.prems"(1) have "xs = extracted @ [?f]" "alerted" by auto
    with True show ?thesis by simp
  next
    case False
    with "1.prems"(4) have lt: "length extracted < 200" by simp
    then have small: "\<not> 200 < length (extracted @ [?f])" by simp
    from le small "1.prems"(1)
    have rec: "extractLoop uuid capture endTime interval (numAdd cursor interval) (extracted @ [?f])
                 = (xs, alerted)"
      by (simp del: extractLoop.simps add: extractLoop.simps [of _ _ _ _ cursor])
    from lt have len': "length (extracted @ [?f]) \<le> 200" by simp
    from "1.prems"(2,3) have "cursor + interval \<le> real (Suc (length extracted)) / 4" by simp
    then have "toDouble (cursor + interval) \<le> toDouble (real (Suc (length extracted)) / 4)"
      by (rule toDouble_mono)
    also from lt have "\<dots> = real (Suc (length extracted)) / 4"
      by (intro toDouble_quarters) simp
    finally have cur': "numAdd cursor interval \<le> real (length (extracted @ [?f])) / 4"
      by (simp add: numAdd_def)
    from "1.IH" [OF le small rec "1.prems"(2) cur' len' "1.prems"(5)] show ?thesis .
  qed
qed

text \<open>
  Claim C1. A clip of 60 seconds sampled at 5 frames per second from \<open>startTime = 0\<close>
  has \<open>floor (60 * 5) + 1 = 301\<close> sampling times; the loop stops with the alert, and the
  list it hands to \<open>setFrames\<close> has 201 frames, one more than the cap of 200 that the
  claim and the alert's own text state.
\<close>

theorem extractFrames_keeps_201:
  "length (frames (snd (extractFrames uuid capture 0 60 5 st))) = 201 \<and>
   fst (extractFrames uuid capture 0 60 5 st) \<and>
   \<lfloor>(60 - 0) * (5::real)\<rfloor> + 1 = 301"
proof -
  obtain xs alerted where r: "extractLoop uuid capture 60 (numDiv 1 5) 0 [] = (xs, alerted)"
    by (cases "extractLoop uuid capture 60 (numDiv 1 5) 0 []")
  have i: "numDiv 1 5 \<le> 1 / 4" by (simp add: interval_5fps)
  from extractLoop_reaches_cap [OF i _ _ _ r] have "length xs = 201 \<and> alerted" by simp
  with r show ?thesis by (simp add: extractFrames_def Let_def)
qed

text \<open>
  Below the cap the count is not always the one of the formula either: the cursor is a
  sum of rounded additions. From \<open>0\<close> to \<open>3\<close> seconds at 5 frames per second the fifteenth
  addition of the interval gives a double above \<open>3\<close>, and the loop ends with 15 frames
  where \<open>floor (3 * 5) + 1\<close> is 16.
\<close>

lemma extractFrames_drift:
  "length (frames (snd (extractFrames uuid capture 0 3 5 st))) = 15 \<and>
   \<not> fst (extractFrames uuid capture 0 3 5 st) \<and>
   \<lfloor>(3 - 0) * (5::real)\<rfloor> + 1 = 16"
  by (simp add: extractFrames_def Let_def interval_5fps cursor_step_1 cursor_step_2 cursor_step_3 cursor_step_4 cursor_step_5 cursor_step_6 cursor_step_7 cursor_step_8 cursor_step_9 cursor_step_10 cursor_step_11 cursor_step_12 cursor_step_13 cursor_step_14 cursor_step_15)

subsection \<open>Sprite sheet generation\<close>

lemma jsRemainder_nonneg: "1 \<le> cols \<Longrightarrow> jsRemainder (int i) cols = int i mod cols"
  by (cases "i = 0") (simp_all add: jsRemainder_def)

lemma floorQuotient_div: "floorQuotient i cols = i div cols"
  by (simp add: floorQuotient_def floor_divide_of_int_eq)

lemma neg_div_ceiling:
  assumes "0 < (c::int)"
  shows "- (- n div c) = (n + c - 1) div c"
proof -
  define q where "q = n div c"
  define r where "r = n mod c"
  have n: "n = c * q + r" by (simp add: q_def r_def)
  from assms have r: "0 \<le> r" "r < c" by (simp_all add: r_def)
  have rhs: "(n + c - 1) div c = q + (r + c - 1) div c"
  proof -
    have e: "n + c - 1 = c * q + (r + c - 1)" by (simp add: n)
    have "(n + c - 1) div c = (c * q + (r + c - 1)) div c" by (simp only: e)
    also have "\<dots> = q + (r + c - 1) div c"
      using assms by simp
    finally show ?thesis .
  qed
  from assms have lhs: "- (- n div c) = (if r = 0 then q else q + 1)"
    by (simp add: zdiv_zminus1_eq_if q_def r_def)
  show ?thesis
  proof (cases "r = 0")
    case True
    with assms have "(r + c - 1) div c = 0" by (simp add: div_pos_pos_trivial)
    with True lhs rhs show ?thesis by simp
  next
    case False
    with r have r1: "0 \<le> r - 1" "r - 1 < c" by simp_all
    have e: "r + c - 1 = (r - 1) + c" by simp
    have "((r - 1) + c) div c = (r - 1) div c + 1"
      using assms by simp
    then have "(r + c - 1) div c = (r - 1) div c + 1" by (simp only: e)
    with r1 have "(r + c - 1) div c = 1" by (simp add: div_pos_pos_trivial)
    with False lhs rhs show ?thesis by simp
  qed
qed

lemma ceiling_rows:
  assumes "1 \<le> c"
  shows "\<lceil>real n / real_of_int c\<rceil> = (int n + c - 1) div c"
proof -
  have "\<lceil>real n / real_of_int c\<rceil> = \<lceil>real_of_int (int n) / real_of_int c\<rceil>" by simp
  also have "\<dots> = - (- int n div c)" by (rule ceiling_divide_eq_div)
  also from assms have "\<dots> = (int n + c - 1) div c" by (intro neg_div_ceiling) simp
  finally show ?thesis .
qed

text \<open>
  The double of a quotient of two integers up to \<open>2 ^ 26\<close> is on the same side of every
  integer as the quotient: \<open>Math.floor\<close> and \<open>Math.ceil\<close> of it are the floor and the
  ceiling of the exact quotient.
\<close>

lemma toDouble_grid26:
  assumes "\<bar>m\<bar> \<le> 2 ^ 52"
  shows "toDouble (real_of_int m / 2 ^ 26) = real_of_int m / 2 ^ 26"
proof -
  from assms have "\<bar>m\<bar> < 2 ^ 53" by simp
  from toDouble_representable [OF this, of "- 26"] show ?thesis
    by (simp add: powi_neg_numeral)
qed

lemma floor_numDiv:
  assumes "0 \<le> i" and "i < 2 ^ 26" and "1 \<le> c" and "c \<le> 2 ^ 26"
  shows "\<lfloor>numDiv (real_of_int i) (real_of_int c)\<rfloor> = floorQuotient i c"
proof -
  define k where "k = i div c"
  define x where "x = real_of_int i / real_of_int c"
  from assms(3) have cpos: "0 < real_of_int c" by simp
  from assms(1,3) have k0: "0 \<le> k" by (simp add: k_def pos_imp_zdiv_nonneg_iff)
  have ik: "i = c * k + i mod c" by (simp add: k_def)
  from assms(3) have "0 \<le> i mod c" by simp
  with ik have "c * k \<le> i" by linarith
  moreover from assms(3) k0 have "1 * k \<le> c * k" by (intro mult_right_mono)
  ultimately have "k \<le> i" by simp
  with assms(2) have k1: "k < 2 ^ 26" by simp
  have fl: "\<lfloor>x\<rfloor> = k" by (simp add: x_def k_def floor_divide_of_int_eq)
  then have lo: "real_of_int k \<le> x" by (metis of_int_floor_le)
  from k0 k1 have "\<bar>k\<bar> < 2 ^ 53" by simp
  then have "toDouble (real_of_int k) = real_of_int k" by (rule toDouble_of_int)
  with toDouble_mono [OF lo] have low: "real_of_int k \<le> toDouble x" by simp
  have "i mod c \<le> c - 1" using assms(3) pos_mod_bound [of c i] by simp
  with ik have "i + 1 \<le> c * (k + 1)" by (simp add: algebra_simps)
  then have "real_of_int (i + 1) \<le> real_of_int (c * (k + 1))" by (simp only: of_int_le_iff)
  then have "real_of_int i + 1 \<le> real_of_int c * (real_of_int k + 1)" by simp
  then have "(real_of_int i + 1) / real_of_int c \<le> real_of_int k + 1"
    using cpos by (simp add: field_simps)
  then have x1: "x + 1 / real_of_int c \<le> real_of_int k + 1"
    by (simp add: x_def add_divide_distrib)
  from assms(3,4) have "real_of_int c \<le> 2 ^ 26" by (metis of_int_le_iff of_int_numeral of_int_power)
  with cpos have "1 / 2 ^ 26 \<le> 1 / real_of_int c" by (simp add: field_simps)
  with x1 have "x \<le> real_of_int k + 1 - 1 / 2 ^ 26" by linarith
  also have "\<dots> = real_of_int ((k + 1) * 2 ^ 26 - 1) / 2 ^ 26" by (simp add: field_simps)
  finally have "toDouble x \<le> toDouble (real_of_int ((k + 1) * 2 ^ 26 - 1) / 2 ^ 26)"
    by (rule toDouble_mono)
  also have "\<dots> = real_of_int ((k + 1) * 2 ^ 26 - 1) / 2 ^ 26"
  proof (rule toDouble_grid26)
    from k0 k1 have "0 \<le> (k + 1) * 2 ^ 26 - 1" "(k + 1) * 2 ^ 26 \<le> 2 ^ 26 * 2 ^ 26" by simp_all
    then show "\<bar>(k + 1) * 2 ^ 26 - 1\<bar> \<le> 2 ^ 52" by simp
  qed
  also have "\<dots> = real_of_int k + 1 - 1 / 2 ^ 26" by (simp add: field_simps)
  also have "\<dots> < real_of_int (k + 1)" by simp
  finally have "\<lfloor>toDouble x\<rfloor> < k + 1" by (simp only: floor_less_iff)
  moreover from low have "k \<le> \<lfloor>toDouble x\<rfloor>" by (simp only: le_floor_iff)
  ultimately have "\<lfloor>toDouble x\<rfloor> = k" by simp
  then show ?thesis by (simp add: numDiv_def x_def floorQuotient_def fl [unfolded x_def])
qed

lemma ceiling_numDiv:
  assumes "n < 2 ^ 26" and "1 \<le> c" and "c \<le> 2 ^ 26"
  shows "gridRows n c = Some \<lceil>numDiv (real n) (real_of_int c)\<rceil>"
proof -
  define x where "x = real n / real_of_int c"
  define k where "k = \<lceil>x\<rceil>"
  from assms(2) have cpos: "0 < real_of_int c" by simp
  have x0: "0 \<le> x" using cpos by (simp add: x_def)
  from assms(2) have "1 \<le> real_of_int c" by simp
  then have "real n / real_of_int c \<le> real n / 1"
    by (intro divide_left_mono) simp_all
  then have "x \<le> real n" by (simp add: x_def)
  moreover from assms(1) have "real n < 2 ^ 26" by (metis of_nat_less_iff of_nat_numeral of_nat_power)
  ultimately have x26: "x < 2 ^ 26" by linarith
  from x0 have k0: "0 \<le> k" unfolding k_def by simp
  from x26 have "x \<le> real_of_int (2 ^ 26)" by simp
  then have k1: "k \<le> 2 ^ 26" unfolding k_def by (simp only: ceiling_le_iff)
  have hi: "x \<le> real_of_int k" unfolding k_def by (rule le_of_int_ceiling)
  from k0 k1 have "\<bar>k\<bar> < 2 ^ 53" by simp
  then have "toDouble (real_of_int k) = real_of_int k" by (rule toDouble_of_int)
  with toDouble_mono [OF hi] have up: "toDouble x \<le> real_of_int k" by simp
  have "real_of_int (k - 1) < x" unfolding k_def using ceiling_correct [of x] by simp
  then have "real_of_int (k - 1) * real_of_int c < real n"
    using cpos by (simp add: x_def field_simps)
  then have "real_of_int ((k - 1) * c) < real_of_int (int n)" by simp
  then have "(k - 1) * c < int n" by (simp only: of_int_less_iff)
  then have "(k - 1) * c + 1 \<le> int n" by simp
  then have "real_of_int ((k - 1) * c + 1) \<le> real_of_int (int n)" by (simp only: of_int_le_iff)
  then have "real_of_int (k - 1) * real_of_int c + 1 \<le> real n" by simp
  then have "(real_of_int (k - 1) * real_of_int c + 1) / real_of_int c \<le> real n / real_of_int c"
    using cpos by (intro divide_right_mono) simp_all
  moreover have "(real_of_int (k - 1) * real_of_int c + 1) / real_of_int c
      = real_of_int (k - 1) + 1 / real_of_int c"
    using cpos by (simp add: add_divide_distrib)
  ultimately have "real_of_int (k - 1) + 1 / real_of_int c \<le> x" by (simp only: x_def)
  moreover from assms(2,3) have "real_of_int c \<le> 2 ^ 26"
    by (metis of_int_le_iff of_int_numeral of_int_power)
  with cpos have "1 / 2 ^ 26 \<le> 1 / real_of_int c" by (simp add: field_simps)
  ultimately have "real_of_int (k - 1) + 1 / 2 ^ 26 \<le> x" by linarith
  moreover have "real_of_int (k - 1) + 1 / 2 ^ 26 = real_of_int ((k - 1) * 2 ^ 26 + 1) / 2 ^ 26"
    by (simp add: field_simps)
  ultimately have "toDouble (real_of_int ((k - 1) * 2 ^ 26 + 1) / 2 ^ 26) \<le> toDouble x"
    by (intro toDouble_mono) simp
  moreover have "toDouble (real_of_int ((k - 1) * 2 ^ 26 + 1) / 2 ^ 26)
      = real_of_int ((k - 1) * 2 ^ 26 + 1) / 2 ^ 26"
  proof (rule toDouble_grid26)
    from k0 k1 have "- (2 ^ 26) \<le> (k - 1) * 2 ^ 26" "(k - 1) * 2 ^ 26 + 1 \<le> 2 ^ 26 * 2 ^ 26"
      by simp_all
    then show "\<bar>(k - 1) * 2 ^ 26 + 1\<bar> \<le> 2 ^ 52" by simp
  qed
  moreover have "real_of_int (k - 1) < real_of_int ((k - 1) * 2 ^ 26 + 1) / 2 ^ 26"
    by (simp add: field_simps)
  ultimately have "real_of_int (k - 1) < toDouble x" by linarith
  then have "k - 1 < \<lceil>toDouble x\<rceil>" by (simp only: less_ceiling_iff)
  moreover from up have "\<lceil>toDouble x\<rceil> \<le> k" by (simp only: ceiling_le_iff)
  ultimately have "\<lceil>toDouble x\<rceil> = k" by simp
  with assms(2) show ?thesis by (simp add: gridRows_def numDiv_def x_def k_def)
qed

text \<open>
  The product under \<open>Math.round\<close> is the rounded one: a frame of 480 by 270 at the
  slider position \<open>0.15\<close> gets a cell of 72 by 41, the double of \<open>270 * 0.15\<close> being
  \<open>40.5\<close>, where the exact product of 270 and the double of \<open>0.15\<close> rounds to 40.
\<close>

lemma targetSize_rounds_double_product:
  "targetSize (exampleLayout\<lparr>outputMode := Scale, scale := toDouble (15 / 100)\<rparr>) 480 270
     = (72, 41) \<and>
   round (270 * toDouble (15 / 100)) = (40::int)"
  by (simp add: targetSize_def double_0_15 scaled_height scaled_width round_def)

lemma placeFrames_None_iff:
  "placeFrames env chromaSettings sheetSettings originalW originalH targetW targetH i fs = None
     \<longleftrightarrow> (\<exists>f \<in> set fs. loadImg env (originalDataUrl f) = None)"
proof (induction fs arbitrary: i)
  case Nil
  show ?case by simp
next
  case (Cons f fs)
  note IH = Cons.IH [of "Suc i"]
  show ?case
  proof (cases "loadImg env (originalDataUrl f)")
    case None
    then show ?thesis by simp
  next
    case (Some img)
    show ?thesis
    proof (cases "placeFrames env chromaSettings sheetSettings originalW originalH
                    targetW targetH (Suc i) fs")
      case None
      with IH Some show ?thesis by (simp add: Let_def)
    next
      case later: (Some cs)
      with IH have "\<not> (\<exists>f \<in> set fs. loadImg env (originalDataUrl f) = None)" by simp
      with Some later show ?thesis by (simp add: Let_def)
    qed
  qed
qed

lemma placeFrames_cells:
  assumes "\<forall>f \<in> set fs. loadImg env (originalDataUrl f) \<noteq> None"
    and "1 \<le> columns sheetSettings"
  shows "\<exists>cs. placeFrames env chromaSettings sheetSettings originalW originalH targetW targetH i fs
               = Some cs \<and>
           length cs = length fs \<and>
           (\<forall>j < length fs. cs ! j =
              \<lparr>source = processFrame (drawImage env) (the (loadImg env (originalDataUrl (fs ! j))))
                          chromaSettings originalW originalH,
               sourceW = originalW, sourceH = originalH,
               destX = (int (i + j) mod columns sheetSettings) * (targetW + padding sheetSettings),
               destY = (int (i + j) div columns sheetSettings) * (targetH + padding sheetSettings),
               destW = targetW, destH = targetH\<rparr>)"
  using assms(1)
proof (induction fs arbitrary: i)
  case Nil
  show ?case by simp
next
  case (Cons f fs)
  from Cons.prems obtain img where img: "loadImg env (originalDataUrl f) = Some img" by auto
  from Cons.prems have "\<forall>f \<in> set fs. loadImg env (originalDataUrl f) \<noteq> None" by simp
  from Cons.IH [OF this, of "Suc i"] obtain cs where
    cs: "placeFrames env chromaSettings sheetSettings originalW originalH targetW targetH (Suc i) fs
           = Some cs"
    and len: "length cs = length fs"
    and nth: "\<forall>j < length fs. cs ! j =
              \<lparr>source = processFrame (drawImage env) (the (loadImg env (originalDataUrl (fs ! j))))
                          chromaSettings originalW originalH,
               sourceW = originalW, sourceH = originalH,
               destX = (int (Suc i + j) mod columns sheetSettings) * (targetW + padding sheetSettings),
               destY = (int (Suc i + j) div columns sheetSettings) * (targetH + padding sheetSettings),
               destW = targetW, destH = targetH\<rparr>"
    by blast
  let ?c = "\<lparr>source = processFrame (drawImage env) img chromaSettings originalW originalH,
               sourceW = originalW, sourceH = originalH,
               destX = (int i mod columns sheetSettings) * (targetW + padding sheetSettings),
               destY = (int i div columns sheetSettings) * (targetH + padding sheetSettings),
               destW = targetW, destH = targetH\<rparr>"
  from assms(2) have nz: "columns sheetSettings \<noteq> 0" by simp
  have step: "placeFrames env chromaSettings sheetSettings originalW originalH targetW targetH i (f # fs)
                = Some (?c # cs)"
    using img cs nz assms(2)
    by (simp add: Let_def jsRemainder_nonneg floorQuotient_div del: of_nat_add)
  have "(?c # cs) ! j =
              \<lparr>source = processFrame (drawImage env) (the (loadImg env (originalDataUrl ((f # fs) ! j))))
                          chromaSettings originalW originalH,
               sourceW = originalW, sourceH = originalH,
               destX = (int (i + j) mod columns sheetSettings) * (targetW + padding sheetSettings),
               destY = (int (i + j) div columns sheetSettings) * (targetH + padding sheetSettings),
               destW = targetW, destH = targetH\<rparr>"
    if "j < length (f # fs)" for j
  proof (cases j)
    case 0
    then show ?thesis by (simp add: img)
  next
    case (Suc k)
    with that have "k < length fs" by simp
    with nth Suc show ?thesis by (simp del: of_nat_add of_nat_Suc)
  qed
  with step len show ?case by simp
qed

lemma generateSpriteSheet_Generated:
  assumes "frames st \<noteq> []" and "sheetCanvasMounted env" and "sheetContext env"
    and "offContext env"
    and "filter selected (frames st) \<noteq> []"
    and "\<forall>f \<in> set (filter selected (frames st)). loadImg env (originalDataUrl f) \<noteq> None"
  shows "\<exists>firstImg drawn.
           loadImg env (originalDataUrl (hd (filter selected (frames st)))) = Some firstImg \<and>
           placeFrames env chromaSettings sheetSettings (width firstImg) (height firstImg)
             (fst (targetSize sheetSettings (width firstImg) (height firstImg)))
             (snd (targetSize sheetSettings (width firstImg) (height firstImg)))
             0 (filter selected (frames st)) = Some drawn \<and>
           generateSpriteSheet env chromaSettings sheetSettings st =
             (Generated,
              st\<lparr>isGenerating := False,
                 generatedSheetUrl := Some
                   \<lparr>canvasWidth = columns sheetSettings
                        * fst (targetSize sheetSettings (width firstImg) (height firstImg))
                      + (columns sheetSettings - 1) * padding sheetSettings,
                    canvasHeight = map_option
                      (\<lambda>r. r * snd (targetSize sheetSettings (width firstImg) (height firstImg))
                             + (r - 1) * padding sheetSettings)
                      (gridRows (length (filter selected (frames st))) (columns sheetSettings)),
                    cells = drawn\<rparr>,
                 showSheetPreview := True\<rparr>)"
proof -
  let ?sel = "filter selected (frames st)"
  from assms(5) have "hd ?sel \<in> set ?sel" by (rule hd_in_set)
  with assms(6) obtain firstImg where
    first: "loadImg env (originalDataUrl (hd ?sel)) = Some firstImg" by blast
  let ?tw = "fst (targetSize sheetSettings (width firstImg) (height firstImg))"
  let ?th = "snd (targetSize sheetSettings (width firstImg) (height firstImg))"
  from assms(6) placeFrames_None_iff
    [of env chromaSettings sheetSettings "width firstImg" "height firstImg" ?tw ?th 0 ?sel]
  obtain drawn where
    drawn: "placeFrames env chromaSettings sheetSettings (width firstImg) (height firstImg)
              ?tw ?th 0 ?sel = Some drawn"
    by auto
  from assms(1-5) first drawn
  have "generateSpriteSheet env chromaSettings sheetSettings st =
             (Generated,
              st\<lparr>isGenerating := False,
                 generatedSheetUrl := Some
                   \<lparr>canvasWidth = columns sheetSettings * ?tw
                      + (columns sheetSettings - 1) * padding sheetSettings,
                    canvasHeight = map_option
                      (\<lambda>r. r * ?th + (r - 1) * padding sheetSettings)
                      (gridRows (length ?sel) (columns sheetSettings)),
                    cells = drawn\<rparr>,
                 showSheetPreview := True\<rparr>)"
    by (simp add: generateSpriteSheet_def Let_def)
  with first drawn show ?thesis by blast
qed

lemma generateSpriteSheet_outcome:
  "fst (generateSpriteSheet env chromaSettings sheetSettings st) =
     (if frames st = [] \<or> \<not> sheetCanvasMounted env then NotReady
      else if filter selected (frames st) = [] then EmptySelection
      else if \<not> sheetContext env then NoContext
      else if \<not> offContext env then GenerationFailed
      else if \<exists>f \<in> set (filter selected (frames st)). loadImg env (originalDataUrl f) = None
        then GenerationFailed
      else Generated)"
proof (cases "frames st = [] \<or> \<not> sheetCanvasMounted env")
  case True
  then show ?thesis by (auto simp: generateSpriteSheet_def)
next
  case ready: False
  let ?sel = "filter selected (frames st)"
  show ?thesis
  proof (cases "?sel = []")
    case True
    with ready show ?thesis by (simp add: generateSpriteSheet_def Let_def)
  next
    case sel: False
    show ?thesis
    proof (cases "sheetContext env")
      case False
      with ready sel show ?thesis by (simp add: generateSpriteSheet_def Let_def)
    next
      case ctx: True
      show ?thesis
      proof (cases "loadImg env (originalDataUrl (hd ?sel))")
        case None
        with sel hd_in_set [of ?sel]
        have "\<exists>f \<in> set ?sel. loadImg env (originalDataUrl f) = None" by blast
        with ready sel ctx None show ?thesis by (simp add: generateSpriteSheet_def Let_def)
      next
        case first: (Some firstImg)
        show ?thesis
        proof (cases "offContext env")
          case False
          with ready sel ctx first show ?thesis by (simp add: generateSpriteSheet_def Let_def)
        next
          case off: True
          let ?place = "placeFrames env chromaSettings sheetSettings (width firstImg) (height firstImg)
              (fst (targetSize sheetSettings (width firstImg) (height firstImg)))
              (snd (targetSize sheetSettings (width firstImg) (height firstImg))) 0 ?sel"
          show ?thesis
          proof (cases ?place)
            case None
            then have "\<exists>f \<in> set ?sel. loadImg env (originalDataUrl f) = None"
              by (simp only: placeFrames_None_iff)
            with ready sel ctx first off None show ?thesis
              by (simp add: generateSpriteSheet_def Let_def)
          next
            case (Some drawn)
            then have "?place \<noteq> None" by simp
            then have "\<not> (\<exists>f \<in> set ?sel. loadImg env (originalDataUrl f) = None)"
              by (simp add: placeFrames_None_iff)
            with ready sel ctx first off Some show ?thesis
              by (simp add: generateSpriteSheet_def Let_def)
          qed
        qed
      qed
    qed
  qed
qed

lemma generateSpriteSheet_publishes:
  assumes "sheetCanvasMounted env" and "sheetContext env" and "offContext env"
    and "filter selected (frames st) \<noteq> []"
    and "\<forall>f \<in> set (filter selected (frames st)). loadImg env (originalDataUrl f) \<noteq> None"
  shows "fst (generateSpriteSheet env chromaSettings sheetSettings st) = Generated"
    and "generatedSheetUrl (snd (generateSpriteSheet env chromaSettings sheetSettings st)) \<noteq> None"
proof -
  from assms(4) have ne: "frames st \<noteq> []" by auto
  from generateSpriteSheet_Generated [OF ne assms, of chromaSettings sheetSettings]
  obtain sheet where "generateSpriteSheet env chromaSettings sheetSettings st =
      (Generated, st\<lparr>isGenerating := False, generatedSheetUrl := Some sheet,
                      showSheetPreview := True\<rparr>)"
    by blast
  then show "fst (generateSpriteSheet env chromaSettings sheetSettings st) = Generated"
    and "generatedSheetUrl (snd (generateSpriteSheet env chromaSettings sheetSettings st)) \<noteq> None"
    by simp_all
qed

lemma example_ready:
  "sheetCanvasMounted exampleBrowser" "sheetContext exampleBrowser" "offContext exampleBrowser"
  "filter selected (frames exampleState) \<noteq> []"
  "\<forall>f \<in> set (filter selected (frames exampleState)).
     loadImg exampleBrowser (originalDataUrl f) \<noteq> None"
  by (simp_all add: exampleBrowser_def exampleState_def tenFrames_def exampleFrame_def)

text \<open>
  Claim C2, as stated, fails: with ten selected frames that load, \<open>columns = 0\<close>, or
  \<open>padding = -1\<close>, or a fixed width of \<open>0\<close>, or a scale of \<open>0\<close> ends in the publication
  of a sheet, not in an error.
\<close>

theorem invalid_layout_counterexample:
  "fst (generateSpriteSheet exampleBrowser exampleSettings
          (exampleLayout\<lparr>columns := 0\<rparr>) exampleState) = Generated \<and>
   fst (generateSpriteSheet exampleBrowser exampleSettings
          (exampleLayout\<lparr>padding := - 1\<rparr>) exampleState) = Generated \<and>
   generatedSheetUrl (snd (generateSpriteSheet exampleBrowser exampleSettings
          (exampleLayout\<lparr>padding := - 1\<rparr>) exampleState)) \<noteq> None \<and>
   fst (generateSpriteSheet exampleBrowser exampleSettings
          (exampleLayout\<lparr>customWidth := 0\<rparr>) exampleState) = Generated \<and>
   fst (generateSpriteSheet exampleBrowser exampleSettings
          (exampleLayout\<lparr>outputMode := Scale, scale := 0\<rparr>) exampleState) = Generated"
  using generateSpriteSheet_publishes [OF example_ready] by blast

text \<open>
  Claim C2, amended. \<open>generateSpriteSheet\<close> does not validate the layout: how a call ends
  does not depend on the sheet settings at all, and with a mounted canvas, both
  contexts, a non-empty selection and frames that load, it publishes a sheet whatever
  the columns, the padding, the fixed size and the scale are.
\<close>

theorem layout_is_not_validated:
  assumes "sheetCanvasMounted env" and "sheetContext env" and "offContext env"
    and "filter selected (frames st) \<noteq> []"
    and "\<forall>f \<in> set (filter selected (frames st)). loadImg env (originalDataUrl f) \<noteq> None"
  shows "fst (generateSpriteSheet env chromaSettings sheetSettings st) = Generated \<and>
         generatedSheetUrl (snd (generateSpriteSheet env chromaSettings sheetSettings st)) \<noteq> None \<and>
         (\<forall>env' st' otherSettings.
            fst (generateSpriteSheet env' chromaSettings sheetSettings st')
              = fst (generateSpriteSheet env' chromaSettings otherSettings st'))"
  using generateSpriteSheet_publishes [OF assms, of chromaSettings sheetSettings]
  by (simp only: generateSpriteSheet_outcome simp_thms)

theorem layout_is_not_validated_witness:
  "sheetCanvasMounted exampleBrowser \<and> sheetContext exampleBrowser \<and> offContext exampleBrowser \<and>
   filter selected (frames exampleState) \<noteq> [] \<and>
   list_all (\<lambda>f. loadImg exampleBrowser (originalDataUrl f) \<noteq> None)
     (filter selected (frames exampleState)) \<and>
   fst (generateSpriteSheet exampleBrowser exampleSettings
          (exampleLayout\<lparr>columns := 0, padding := - 1\<rparr>) exampleState) = Generated"
  using layout_is_not_validated [OF example_ready, of exampleSettings
      "exampleLayout\<lparr>columns := 0, padding := - 1\<rparr>"] example_ready
  by (simp only: list_all_iff simp_thms)

text \<open>
  Claim C4. For a non-empty selection of \<open>n\<close> frames that load and \<open>columns = c \<ge> 1\<close>,
  the call publishes a sheet with \<open>rows = ceil (n / c)\<close>, width
  \<open>c * targetW + (c - 1) * padding\<close> and height \<open>rows * targetH + (rows - 1) * padding\<close>;
  the target size is the configured one in fixed mode and, in scale mode, the size of the
  first selected frame times the scale (a double product), rounded. As an integer,
  \<open>rows\<close> is \<open>(n + c - 1) div c\<close>.
\<close>

theorem sheet_geometry:
  assumes "sheetCanvasMounted env" and "sheetContext env" and "offContext env"
    and "filter selected (frames st) \<noteq> []"
    and "\<forall>f \<in> set (filter selected (frames st)). loadImg env (originalDataUrl f) \<noteq> None"
    and "1 \<le> columns sheetSettings"
  shows "let selectedFrames = filter selected (frames st);
             n = length selectedFrames;
             c = columns sheetSettings;
             firstImg = the (loadImg env (originalDataUrl (hd selectedFrames)));
             targetW = (if outputMode sheetSettings = Fixed then customWidth sheetSettings
                        else round (numMul (real_of_int (width firstImg)) (scale sheetSettings)));
             targetH = (if outputMode sheetSettings = Fixed then customHeight sheetSettings
                        else round (numMul (real_of_int (height firstImg)) (scale sheetSettings)));
             rows = \<lceil>real n / real_of_int c\<rceil>;
             result = generateSpriteSheet env chromaSettings sheetSettings st
         in fst result = Generated \<and>
            (\<exists>sheet. generatedSheetUrl (snd result) = Some sheet \<and>
               canvasWidth sheet = c * targetW + (c - 1) * padding sheetSettings \<and>
               canvasHeight sheet = Some (rows * targetH + (rows - 1) * padding sheetSettings)) \<and>
            rows = (int n + c - 1) div c"
proof -
  from assms(4) have ne: "frames st \<noteq> []" by auto
  from assms(6) have nz: "columns sheetSettings \<noteq> 0" by simp
  from generateSpriteSheet_Generated [OF ne assms(1-5), of chromaSettings sheetSettings]
  obtain firstImg drawn where
    first: "loadImg env (originalDataUrl (hd (filter selected (frames st)))) = Some firstImg"
    and gen: "generateSpriteSheet env chromaSettings sheetSettings st =
             (Generated,
              st\<lparr>isGenerating := False,
                 generatedSheetUrl := Some
                   \<lparr>canvasWidth = columns sheetSettings
                        * fst (targetSize sheetSettings (width firstImg) (height firstImg))
                      + (columns sheetSettings - 1) * padding sheetSettings,
                    canvasHeight = map_option
                      (\<lambda>r. r * snd (targetSize sheetSettings (width firstImg) (height firstImg))
                             + (r - 1) * padding sheetSettings)
                      (gridRows (length (filter selected (frames st))) (columns sheetSettings)),
                    cells = drawn\<rparr>,
                 showSheetPreview := True\<rparr>)"
    by blast
  show ?thesis
    unfolding Let_def gen first
    by (simp add: targetSize_def gridRows_def nz ceiling_rows [OF assms(6)])
qed

text \<open>
  The end-to-end scenario: ten selected frames, five columns, cells of 100 by 100,
  padding 2; the sheet is 508 wide and 202 high, in 2 rows.
\<close>

theorem sheet_geometry_witness:
  "sheetCanvasMounted exampleBrowser \<and> sheetContext exampleBrowser \<and> offContext exampleBrowser \<and>
   filter selected (frames exampleState) \<noteq> [] \<and>
   list_all (\<lambda>f. loadImg exampleBrowser (originalDataUrl f) \<noteq> None)
     (filter selected (frames exampleState)) \<and>
   1 \<le> columns exampleLayout \<and>
   fst (generateSpriteSheet exampleBrowser exampleSettings exampleLayout exampleState) = Generated \<and>
   (\<exists>sheet. generatedSheetUrl
        (snd (generateSpriteSheet exampleBrowser exampleSettings exampleLayout exampleState))
          = Some sheet \<and>
      canvasWidth sheet = 508 \<and> canvasHeight sheet = Some 202) \<and>
   \<lceil>real (length (filter selected (frames exampleState))) / real_of_int (columns exampleLayout)\<rceil> = 2"
proof -
  have c: "1 \<le> columns exampleLayout" by (simp add: exampleLayout_def)
  have n: "length (filter selected (frames exampleState)) = 10"
    by (simp add: exampleState_def tenFrames_def exampleFrame_def)
  have l: "columns exampleLayout = 5" "padding exampleLayout = 2"
    "outputMode exampleLayout = Fixed" "customWidth exampleLayout = 100"
    "customHeight exampleLayout = 100"
    by (simp_all add: exampleLayout_def)
  from sheet_geometry [OF example_ready c, of exampleSettings] example_ready c
  show ?thesis
    by (simp add: Let_def n l list_all_iff)
qed

text \<open>
  Claim C5. Under the same conditions the cell drawn for index \<open>i\<close> of the selected
  sequence (the frames with \<open>selected = true\<close>, in their order) is the chroma-keyed
  \<open>i\<close>-th selected frame, at column \<open>i mod c\<close> and row \<open>i div c\<close>, with origin
  \<open>x = col * (targetW + padding)\<close>, \<open>y = row * (targetH + padding)\<close> and size
  \<open>targetW\<close> by \<open>targetH\<close>.
\<close>

theorem frame_placement:
  assumes "sheetCanvasMounted env" and "sheetContext env" and "offContext env"
    and "filter selected (frames st) \<noteq> []"
    and "\<forall>f \<in> set (filter selected (frames st)). loadImg env (originalDataUrl f) \<noteq> None"
    and "1 \<le> columns sheetSettings"
    and "i < length (filter selected (frames st))"
  shows "let selectedFrames = filter selected (frames st);
             cols = columns sheetSettings;
             firstImg = the (loadImg env (originalDataUrl (hd selectedFrames)));
             targetW = (if outputMode sheetSettings = Fixed then customWidth sheetSettings
                        else round (numMul (real_of_int (width firstImg)) (scale sheetSettings)));
             targetH = (if outputMode sheetSettings = Fixed then customHeight sheetSettings
                        else round (numMul (real_of_int (height firstImg)) (scale sheetSettings)));
             col = int i mod cols;
             row = int i div cols;
             result = generateSpriteSheet env chromaSettings sheetSettings st
         in \<exists>sheet. generatedSheetUrl (snd result) = Some sheet \<and>
              length (cells sheet) = length selectedFrames \<and>
              destX (cells sheet ! i) = col * (targetW + padding sheetSettings) \<and>
              destY (cells sheet ! i) = row * (targetH + padding sheetSettings) \<and>
              destW (cells sheet ! i) = targetW \<and>
              destH (cells sheet ! i) = targetH \<and>
              source (cells sheet ! i) =
                processFrame (drawImage env)
                  (the (loadImg env (originalDataUrl (selectedFrames ! i))))
                  chromaSettings (width firstImg) (height firstImg)"
proof -
  let ?sel = "filter selected (frames st)"
  from assms(4) have ne: "frames st \<noteq> []" by auto
  from generateSpriteSheet_Generated [OF ne assms(1-5), of chromaSettings sheetSettings]
  obtain firstImg drawn where
    first: "loadImg env (originalDataUrl (hd ?sel)) = Some firstImg"
    and place: "placeFrames env chromaSettings sheetSettings (width firstImg) (height firstImg)
             (fst (targetSize sheetSettings (width firstImg) (height firstImg)))
             (snd (targetSize sheetSettings (width firstImg) (height firstImg)))
             0 ?sel = Some drawn"
    and gen: "generateSpriteSheet env chromaSettings sheetSettings st =
             (Generated,
              st\<lparr>isGenerating := False,
                 generatedSheetUrl := Some
                   \<lparr>canvasWidth = columns sheetSettings
                        * fst (targetSize sheetSettings (width firstImg) (height firstImg))
                      + (columns sheetSettings - 1) * padding sheetSettings,
                    canvasHeight = map_option
                      (\<lambda>r. r * snd (targetSize sheetSettings (width firstImg) (height firstImg))
                             + (r - 1) * padding sheetSettings)
                      (gridRows (length ?sel) (columns sheetSettings)),
                    cells = drawn\<rparr>,
                 showSheetPreview := True\<rparr>)"
    by blast
  from placeFrames_cells [OF assms(5,6), of chromaSettings "width firstImg" "height firstImg"
      "fst (targetSize sheetSettings (width firstImg) (height firstImg))"
      "snd (targetSize sheetSettings (width firstImg) (height firstImg))" 0] place assms(7)
  have len: "length drawn = length ?sel"
    and cell: "drawn ! i =
      \<lparr>source = processFrame (drawImage env) (the (loadImg env (originalDataUrl (?sel ! i))))
                  chromaSettings (width firstImg) (height firstImg),
       sourceW = width firstImg, sourceH = height firstImg,
       destX = (int i mod columns sheetSettings)
                 * (fst (targetSize sheetSettings (width firstImg) (height firstImg))
                    + padding sheetSettings),
       destY = (int i div columns sheetSettings)
                 * (snd (targetSize sheetSettings (width firstImg) (height firstImg))
                    + padding sheetSettings),
       destW = fst (targetSize sheetSettings (width firstImg) (height firstImg)),
       destH = snd (targetSize sheetSettings (width firstImg) (height firstImg))\<rparr>"
    by auto
  show ?thesis
    unfolding Let_def gen first
    by (simp add: len cell targetSize_def)
qed

text \<open>
  The scenario of the claim: ten selected frames, five columns, cells of 100 by 100,
  padding 2; frame 7 lands in column 2 of row 1, at \<open>(204, 102)\<close>.
\<close>

theorem frame_placement_witness:
  "sheetCanvasMounted exampleBrowser \<and> sheetContext exampleBrowser \<and> offContext exampleBrowser \<and>
   filter selected (frames exampleState) \<noteq> [] \<and>
   list_all (\<lambda>f. loadImg exampleBrowser (originalDataUrl f) \<noteq> None)
     (filter selected (frames exampleState)) \<and>
   1 \<le> columns exampleLayout \<and>
   7 < length (filter selected (frames exampleState)) \<and>
   int 7 mod columns exampleLayout = 2 \<and> int 7 div columns exampleLayout = 1 \<and>
   (\<exists>sheet. generatedSheetUrl
        (snd (generateSpriteSheet exampleBrowser exampleSettings exampleLayout exampleState))
          = Some sheet \<and>
      length (cells sheet) = 10 \<and>
      destX (cells sheet ! 7) = 204 \<and> destY (cells sheet ! 7) = 102 \<and>
      destW (cells sheet ! 7) = 100 \<and> destH (cells sheet ! 7) = 100)"
proof -
  have c: "1 \<le> columns exampleLayout" by (simp add: exampleLayout_def)
  have n: "length (filter selected (frames exampleState)) = 10"
    by (simp add: exampleState_def tenFrames_def exampleFrame_def)
  then have i: "7 < length (filter selected (frames exampleState))" by simp
  have l: "columns exampleLayout = 5" "padding exampleLayout = 2"
    "outputMode exampleLayout = Fixed" "customWidth exampleLayout = 100"
    "customHeight exampleLayout = 100"
    by (simp_all add: exampleLayout_def)
  from frame_placement [OF example_ready c i, of exampleSettings]
  obtain sheet where "generatedSheetUrl
        (snd (generateSpriteSheet exampleBrowser exampleSettings exampleLayout exampleState))
          = Some sheet"
    and "length (cells sheet) = 10"
    and "destX (cells sheet ! 7) = 204" and "destY (cells sheet ! 7) = 102"
    and "destW (cells sheet ! 7) = 100" and "destH (cells sheet ! 7) = 100"
    by (auto simp: Let_def n l)
  with example_ready c i l(1) show ?thesis by (auto simp: list_all_iff)
qed

text \<open>
  Claim C6. When the call is made (from the editor, with the sheet canvas mounted) and
  no frame has \<open>selected = true\<close>, the filter yields the empty sequence, the call ends
  with the empty-selection alert, no sheet is produced, \<open>generatedSheetUrl\<close> is \<open>null\<close>
  and the busy flag is off again.
\<close>

theorem empty_selection_reported:
  assumes "editorRendered st" and "sheetCanvasMounted env"
    and "filter selected (frames st) = []"
  shows "generateSpriteSheet env chromaSettings sheetSettings st =
           (EmptySelection, st\<lparr>isGenerating := False, generatedSheetUrl := None\<rparr>) \<and>
         fst (generateSpriteSheet env chromaSettings sheetSettings st) = EmptySelection \<and>
         generatedSheetUrl (snd (generateSpriteSheet env chromaSettings sheetSettings st)) = None"
  using assms by (simp add: generateSpriteSheet_def editorRendered_def Let_def)

text \<open>Two frames, neither selected.\<close>

theorem empty_selection_reported_witness:
  "editorRendered unselectedState \<and> sheetCanvasMounted exampleBrowser \<and>
   filter selected (frames unselectedState) = [] \<and>
   fst (generateSpriteSheet exampleBrowser exampleSettings exampleLayout unselectedState)
     = EmptySelection \<and>
   generatedSheetUrl (snd (generateSpriteSheet exampleBrowser exampleSettings exampleLayout
     unselectedState)) = None"
proof -
  have a: "editorRendered unselectedState" "sheetCanvasMounted exampleBrowser"
    "filter selected (frames unselectedState) = []"
    by (simp_all add: editorRendered_def unselectedState_def exampleBrowser_def exampleFrame_def)
  from empty_selection_reported [OF a, of exampleSettings exampleLayout] a
  show ?thesis by simp
qed

end
